theory Spec2Isabelle
  imports Complex_Main "HOL-Library.AList"
begin

section \<open>CommunityWatch: data model\<close>

text \<open>
  The persistent store of \<^verbatim>\<open>app/models.py\<close>. Each table is the list of its rows in
  storage order. Python integers are \<^typ>\<open>int\<close>; a nullable column is an \<^typ>\<open>'a option\<close>
  (\<open>None\<close> is SQL NULL). Floating-point columns and embedding components are modelled
  as \<^typ>\<open>real\<close>: rounding is not modelled, the one float effect the code depends on
  (a quotient with divisor zero is not-a-number) is the constructor \<open>NaN\<close> below.
  Columns no modelled route reads (username, password hash, timestamps, image file name,
  geojson, location text) are left out.
  \<^verbatim>\<open>User.id\<close>, \<^verbatim>\<open>Issue.id\<close> are \<open>user_id\<close>, \<open>issue_id\<close>; the foreign key
  \<^verbatim>\<open>Upvote.issue_id\<close> is \<open>upvote_issue_id\<close>.
\<close>

record user =
  user_id :: int
  reputation_points :: "int option"
  is_moderator :: bool

record issue =
  issue_id :: int
  category :: string
  description :: string
  latitude :: real
  longitude :: real
  status :: string
  upvote_count :: "int option"
  embedding :: "real list option"
  reporter_id :: int

text \<open>An \<^verbatim>\<open>Upvote\<close> row; a row is identified by its position in the table.\<close>

record upvote_row =
  voter_id :: int
  upvote_issue_id :: int

text \<open>A \<^verbatim>\<open>Notification\<close> row with its \<^verbatim>\<open>status_update\<close> payload.\<close>

record notification =
  notif_user_id :: int
  notif_name :: string
  notif_issue_id :: int
  notif_issue_category :: string
  notif_status :: string

record db =
  users :: "user list"
  issues :: "issue list"
  upvotes :: "upvote_row list"
  notifications :: "notification list"

text \<open>
  Python exceptions, instances of \<^verbatim>\<open>Exception\<close>. One that escapes a view function
  makes the framework answer 500.
\<close>

datatype pyexc =
    ValueError string
  | AttributeError string
  | KeyError string
  | TypeError string
  | InvalidRequestError string
  | OtherException string

text \<open>\<^verbatim>\<open>str(e)\<close>: the message of an exception.\<close>

fun exc_message :: "pyexc \<Rightarrow> string" where
  "exc_message (ValueError m) = m"
| "exc_message (AttributeError m) = m"
| "exc_message (KeyError m) = m"
| "exc_message (TypeError m) = m"
| "exc_message (InvalidRequestError m) = m"
| "exc_message (OtherException m) = m"

text \<open>\<^verbatim>\<open>db.session.get(Issue, issue_id)\<close> and the \<^verbatim>\<open>issue.reporter\<close> relationship.\<close>

definition get_issue :: "db \<Rightarrow> int \<Rightarrow> issue option" where
  "get_issue s k = find (\<lambda>i. issue_id i = k) (issues s)"

definition get_user :: "db \<Rightarrow> int \<Rightarrow> user option" where
  "get_user s k = find (\<lambda>u. user_id u = k) (users s)"

text \<open>Python's \<^verbatim>\<open>x or 0\<close> on a nullable integer.\<close>

fun or0 :: "int option \<Rightarrow> int" where
  "or0 None = 0"
| "or0 (Some n) = n"

text \<open>\<^verbatim>\<open>str.strip()\<close> on ASCII text.\<close>

definition is_space :: "char \<Rightarrow> bool" where
  "is_space c = (of_char c \<in> {9, 10, 11, 12, 13, 28, 29, 30, 31, 32 :: nat})"

definition strip :: "string \<Rightarrow> string" where
  "strip s = rev (dropWhile is_space (rev (dropWhile is_space s)))"

section \<open>Geo-bounded candidate filter\<close>

text \<open>SQL \<^verbatim>\<open>x BETWEEN lo AND hi\<close> on non-null operands.\<close>

definition between :: "real \<Rightarrow> real \<Rightarrow> real \<Rightarrow> bool" where
  "between x lo hi = (lo \<le> x \<and> x \<le> hi)"

text \<open>
  The \<^verbatim>\<open>where\<close> clause shared by \<^verbatim>\<open>search\<close> and \<^verbatim>\<open>check_duplicates\<close>:
  \<^verbatim>\<open>Issue.latitude.between(lat - radius, lat + radius),
  Issue.longitude.between(lng - radius, lng + radius)\<close>.
\<close>

definition geo_where :: "real \<Rightarrow> real \<Rightarrow> real \<Rightarrow> issue \<Rightarrow> bool" where
  "geo_where lat lng radius i =
     (between (latitude i) (lat - radius) (lat + radius) \<and>
      between (longitude i) (lng - radius) (lng + radius))"

definition search_radius :: real where
  "search_radius = 0.05"

definition duplicate_radius :: real where
  "duplicate_radius = 0.001"

text \<open>The rows \<^verbatim>\<open>check_duplicates\<close> selects as \<^verbatim>\<open>nearby_issues\<close>.\<close>

definition nearby_issues :: "db \<Rightarrow> real \<Rightarrow> real \<Rightarrow> issue list" where
  "nearby_issues s lat lng = filter (geo_where lat lng duplicate_radius) (issues s)"

section \<open>Similarity ranker\<close>

text \<open>
  A numpy scalar: a number or not-a-number. numpy's float division does not raise on a
  zero divisor; it warns and yields \<open>nan\<close> for \<open>0/0\<close>.
\<close>

datatype npfloat = Num real | NaN

text \<open>\<^verbatim>\<open>np.dot\<close> of two one-dimensional arrays: the shapes must agree.\<close>

definition np_dot :: "real list \<Rightarrow> real list \<Rightarrow> pyexc + real" where
  "np_dot v1 v2 =
     (if length v1 = length v2 then Inr (sum_list (map2 (*) v1 v2))
      else Inl (ValueError ''shapes not aligned''))"

text \<open>\<^verbatim>\<open>np.linalg.norm\<close> of a one-dimensional array.\<close>

definition np_norm :: "real list \<Rightarrow> real" where
  "np_norm v = sqrt (sum_list (map (\<lambda>x. x * x) v))"

text \<open>
  \<^verbatim>\<open>np.dot(v1, v2) / (np.linalg.norm(v1) * np.linalg.norm(v2))\<close>. When the divisor is
  zero one of the vectors is zero, so the dividend is zero too (lemma
  \<open>np_dot_zero_divisor\<close>) and the quotient is \<open>nan\<close>.
\<close>

definition cosine_similarity :: "real list \<Rightarrow> real list \<Rightarrow> pyexc + npfloat" where
  "cosine_similarity v1 v2 =
     (case np_dot v1 v2 of
        Inl e \<Rightarrow> Inl e
      | Inr d \<Rightarrow>
          (if np_norm v1 * np_norm v2 = 0 then Inr NaN
           else Inr (Num (d / (np_norm v1 * np_norm v2)))))"

text \<open>Truth value of \<^verbatim>\<open>issue.embedding\<close>: \<open>None\<close> and the empty list are false.\<close>

fun embedding_truthy :: "real list option \<Rightarrow> bool" where
  "embedding_truthy None = False"
| "embedding_truthy (Some v) = (v \<noteq> [])"

text \<open>
  The dict \<^verbatim>\<open>similarities\<close>, as its items in insertion order. The comprehension
  visits the issues in order; storing under a key that is present replaces the value in
  place. An exception of \<^verbatim>\<open>cosine_similarity\<close> ends the comprehension.
\<close>

fun similarities_from ::
  "real list \<Rightarrow> issue list \<Rightarrow> (int \<times> npfloat) list \<Rightarrow> pyexc + (int \<times> npfloat) list" where
  "similarities_from qv [] acc = Inr acc"
| "similarities_from qv (i # rest) acc =
     (case embedding i of
        None \<Rightarrow> similarities_from qv rest acc
      | Some v \<Rightarrow>
          if v = [] then similarities_from qv rest acc
          else
            (case cosine_similarity qv v of
               Inl e \<Rightarrow> Inl e
             | Inr sc \<Rightarrow> similarities_from qv rest (AList.update (issue_id i) sc acc)))"

definition similarities :: "real list \<Rightarrow> issue list \<Rightarrow> pyexc + (int \<times> npfloat) list" where
  "similarities qv cands = similarities_from qv cands []"

definition threshold :: real where
  "threshold = 0.6"

text \<open>
  \<^verbatim>\<open>{sid: score for sid, score in similarities.items() if score > threshold}\<close>;
  \<open>nan > 0.6\<close> is false.
\<close>

fun relevant_ids :: "(int \<times> npfloat) list \<Rightarrow> (int \<times> real) list" where
  "relevant_ids [] = []"
| "relevant_ids ((sid, Num r) # rest) =
     (if r > threshold then (sid, r) # relevant_ids rest else relevant_ids rest)"
| "relevant_ids ((sid, NaN) # rest) = relevant_ids rest"

text \<open>
  \<^verbatim>\<open>sorted(relevant_ids, key=relevant_ids.get, reverse=True)\<close>: the keys of the
  dict, ordered by \<^verbatim>\<open>relevant_ids.get(sid)\<close>, which is the score stored with
  \<open>sid\<close> (the second component of its item). \<^verbatim>\<open>reverse=True\<close> keeps the sort
  stable (equal scores stay in dict order), which is a stable ascending sort of the
  reversed list, reversed.
\<close>

definition sorted_ids :: "(int \<times> real) list \<Rightarrow> int list" where
  "sorted_ids rel = map fst (rev (sort_key snd (rev rel)))"

text \<open>\<^verbatim>\<open>{issue.id: issue for issue in issues}\<close>: a later issue replaces an earlier one.\<close>

definition issue_map :: "issue list \<Rightarrow> int \<Rightarrow> issue option" where
  "issue_map cands = map_of (rev (map (\<lambda>i. (issue_id i, i)) cands))"

text \<open>
  The block of \<^verbatim>\<open>search\<close> under \<^verbatim>\<open>if query_embedding:\<close> (Version 2), ending in
  \<^verbatim>\<open>[issue_map[sid] for sid in sorted_ids if sid in issue_map]\<close>.
\<close>

definition rank_issues :: "real list \<Rightarrow> issue list \<Rightarrow> pyexc + issue list" where
  "rank_issues qv cands =
     (case similarities qv cands of
        Inl e \<Rightarrow> Inl e
      | Inr sims \<Rightarrow> Inr (List.map_filter (issue_map cands) (sorted_ids (relevant_ids sims))))"

text \<open>Version 1 indexes \<^verbatim>\<open>issue_map[sid]\<close> without the membership test.\<close>

fun index_all :: "(int \<Rightarrow> issue option) \<Rightarrow> int list \<Rightarrow> pyexc + issue list" where
  "index_all m [] = Inr []"
| "index_all m (sid # rest) =
     (case m sid of
        None \<Rightarrow> Inl (KeyError ''sid'')
      | Some i \<Rightarrow> (case index_all m rest of Inl e \<Rightarrow> Inl e | Inr r \<Rightarrow> Inr (i # r)))"

definition rank_issues_v1 :: "real list \<Rightarrow> issue list \<Rightarrow> pyexc + issue list" where
  "rank_issues_v1 qv cands =
     (case similarities qv cands of
        Inl e \<Rightarrow> Inl e
      | Inr sims \<Rightarrow> index_all (issue_map cands) (sorted_ids (relevant_ids sims)))"

section \<open>Search\<close>

text \<open>
  The external capabilities \<^verbatim>\<open>search\<close> calls. Both catch their own exceptions and
  answer \<open>None\<close> on failure (\<^verbatim>\<open>app/utils.py\<close>, \<^verbatim>\<open>app/ai_services.py\<close>);
  \<open>generate_embedding\<close> takes the text and the task type.
\<close>

record services =
  get_coords_for_location :: "string \<Rightarrow> (real \<times> real) option"
  generate_embedding :: "string \<Rightarrow> string \<Rightarrow> real list option"

datatype search_response =
    RedirectIndex
  | SearchResults (results: "issue list") (flashed: "string list")

text \<open>
  The rows \<^verbatim>\<open>db.session.scalars(base_query).all()\<close> returns in \<^verbatim>\<open>search\<close>;
  \<open>None\<close> when the location cannot be resolved.
\<close>

definition search_candidates :: "services \<Rightarrow> db \<Rightarrow> string \<Rightarrow> issue list option" where
  "search_candidates env s location_query =
     (if location_query \<noteq> [] then
        (case get_coords_for_location env location_query of
           Some (lat, lng) \<Rightarrow> Some (filter (geo_where lat lng search_radius) (issues s))
         | None \<Rightarrow> None)
      else Some (issues s))"

text \<open>\<^verbatim>\<open>search\<close> of Version 2, on the raw \<^verbatim>\<open>q\<close> and \<^verbatim>\<open>loc\<close> arguments.\<close>

definition search :: "services \<Rightarrow> db \<Rightarrow> string \<Rightarrow> string \<Rightarrow> pyexc + search_response" where
  "search env s q loc =
     (let query = strip q; location_query = strip loc in
      if query = [] \<and> location_query = [] then Inr RedirectIndex
      else
        (case search_candidates env s location_query of
           None \<Rightarrow>
             Inr (SearchResults [] [''Could not find location: '' @ location_query])
         | Some cands \<Rightarrow>
             if query \<noteq> [] \<and> cands \<noteq> [] then
               (case generate_embedding env query ''RETRIEVAL_QUERY'' of
                  None \<Rightarrow> Inr (SearchResults [] [])
                | Some qe \<Rightarrow>
                    if qe \<noteq> [] then
                      (case rank_issues qe cands of
                         Inl e \<Rightarrow> Inl e
                       | Inr ranked \<Rightarrow> Inr (SearchResults ranked []))
                    else Inr (SearchResults [] []))
             else Inr (SearchResults cands [])))"

text \<open>\<^verbatim>\<open>search\<close> of Version 1: the arguments are not stripped.\<close>

definition search_v1 :: "services \<Rightarrow> db \<Rightarrow> string \<Rightarrow> string \<Rightarrow> pyexc + search_response" where
  "search_v1 env s query location_query =
     (if query = [] \<and> location_query = [] then Inr RedirectIndex
      else
        (case search_candidates env s location_query of
           None \<Rightarrow>
             Inr (SearchResults [] [''Could not find location: '' @ location_query])
         | Some cands \<Rightarrow>
             if query \<noteq> [] \<and> cands \<noteq> [] then
               (case generate_embedding env query ''RETRIEVAL_QUERY'' of
                  None \<Rightarrow> Inr (SearchResults [] [])
                | Some qe \<Rightarrow>
                    if qe \<noteq> [] then
                      (case rank_issues_v1 qe cands of
                         Inl e \<Rightarrow> Inl e
                       | Inr ranked \<Rightarrow> Inr (SearchResults ranked []))
                    else Inr (SearchResults [] []))
             else Inr (SearchResults cands [])))"

section \<open>Upvotes, status and reputation\<close>

text \<open>JSON values, for request and response bodies.\<close>

datatype json =
    JNull
  | JBool bool
  | JInt int
  | JNum real
  | JStr string
  | JList "json list"
  | JObject "(string \<times> json) list"

text \<open>Writing a column of the row with a given primary key.\<close>

definition set_upvote_count :: "int \<Rightarrow> int \<Rightarrow> issue list \<Rightarrow> issue list" where
  "set_upvote_count k n rows =
     map (\<lambda>i. if issue_id i = k then i\<lparr>upvote_count := Some n\<rparr> else i) rows"

definition set_status :: "int \<Rightarrow> string \<Rightarrow> issue list \<Rightarrow> issue list" where
  "set_status k st rows = map (\<lambda>i. if issue_id i = k then i\<lparr>status := st\<rparr> else i) rows"

definition set_reputation_points :: "int \<Rightarrow> int \<Rightarrow> user list \<Rightarrow> user list" where
  "set_reputation_points k n rows =
     map (\<lambda>u. if user_id u = k then u\<lparr>reputation_points := Some n\<rparr> else u) rows"

text \<open>
  \<^verbatim>\<open>upvote\<close> (both versions; \<^verbatim>\<open>x = x or 0\<close> and \<^verbatim>\<open>if x is None: x = 0\<close> agree):
  the store after the commit, with the status code and the JSON body. \<open>current_user\<close> is
  the id of the logged-in user. An exception leaves the store as it was (no commit).
  The 404 message is Version 2's; Version 1's ends with a full stop.
\<close>

definition upvote :: "db \<Rightarrow> int \<Rightarrow> int \<Rightarrow> pyexc + (db \<times> nat \<times> json)" where
  "upvote s current_user iid =
     (case get_issue s iid of
        None \<Rightarrow>
          Inr (s, 404, JObject [(''success'', JBool False), (''error'', JStr ''Issue not found'')])
      | Some i \<Rightarrow>
          (case get_user s (reporter_id i) of
             None \<Rightarrow> Inl (AttributeError ''NoneType has no attribute reputation_points'')
           | Some reporter \<Rightarrow>
               (let cnt = or0 (upvote_count i);
                    rep = or0 (reputation_points reporter);
                    existing_upvote =
                      find (\<lambda>v. voter_id v = current_user \<and> upvote_issue_id v = iid) (upvotes s)
                in case existing_upvote of
                     Some ex \<Rightarrow>
                       Inr (s\<lparr>upvotes := remove1 ex (upvotes s),
                              issues := set_upvote_count iid (cnt - 1) (issues s),
                              users := set_reputation_points (reporter_id i) (rep - 2) (users s)\<rparr>,
                            200,
                            JObject [(''success'', JBool True), (''upvote_count'', JInt (cnt - 1)),
                                     (''voted'', JBool False)])
                   | None \<Rightarrow>
                       Inr (s\<lparr>upvotes :=
                                upvotes s @ [\<lparr>voter_id = current_user, upvote_issue_id = iid\<rparr>],
                              issues := set_upvote_count iid (cnt + 1) (issues s),
                              users := set_reputation_points (reporter_id i) (rep + 2) (users s)\<rparr>,
                            200,
                            JObject [(''success'', JBool True), (''upvote_count'', JInt (cnt + 1)),
                                     (''voted'', JBool True)]))))"

text \<open>A redirect with the messages flashed before it.\<close>

datatype redirect = Redirect (target: string) (flashes: "string list")

definition valid_statuses :: "string list" where
  "valid_statuses = [''Reported'', ''In Progress'', ''Resolved'']"

text \<open>
  The upvoters query of Version 1,
  \<^verbatim>\<open>sa.select(User).join(Upvote).where(Upvote.issue_id == issue.id)\<close>: the users with
  an upvote on the issue. (The join yields a user once per upvote row; the result only
  enters a set.)
\<close>

definition select_upvoters :: "db \<Rightarrow> issue \<Rightarrow> user list" where
  "select_upvoters s i =
     filter
       (\<lambda>u. list_ex (\<lambda>v. voter_id v = user_id u \<and> upvote_issue_id v = issue_id i) (upvotes s))
       (users s)"

text \<open>
  The upvoters query of Version 2 adds \<^verbatim>\<open>.options(joinedload(User.upvotes))\<close>.
  \<^verbatim>\<open>User.upvotes\<close> is declared \<^verbatim>\<open>lazy='dynamic'\<close> in Version 2's
  \<^verbatim>\<open>models.py\<close>, and the ORM refuses eager loading of a dynamic relationship: the
  statement raises \<^verbatim>\<open>InvalidRequestError\<close> whatever the rows are.
\<close>

definition select_upvoters_joinedload :: "db \<Rightarrow> issue \<Rightarrow> pyexc + user list" where
  "select_upvoters_joinedload s i =
     Inl (InvalidRequestError
            ''User.upvotes does not support object population - eager loading cannot be applied.'')"

text \<open>
  The users \<^verbatim>\<open>update_status\<close> notifies: the reporter and the upvoters, once each.
  The source iterates a Python set, whose order is not fixed; the list here is one such
  order.
\<close>

definition recipients :: "issue \<Rightarrow> user list \<Rightarrow> int list" where
  "recipients i upvoters = remdups (reporter_id i # map user_id upvoters)"

definition status_notifications :: "issue \<Rightarrow> user list \<Rightarrow> string \<Rightarrow> notification list" where
  "status_notifications i upvoters new_status =
     map (\<lambda>uid. \<lparr>notif_user_id = uid, notif_name = ''status_update'',
                   notif_issue_id = issue_id i, notif_issue_category = category i,
                   notif_status = new_status\<rparr>)
       (recipients i upvoters)"

text \<open>
  \<^verbatim>\<open>update_status\<close> of Version 2. \<open>new_status\<close> is the form field \<^verbatim>\<open>status\<close>
  (\<open>None\<close> when absent). A user id that is not in the store stands for an anonymous
  request, which \<^verbatim>\<open>login_required\<close> sends to the login page. The status and the
  reputation are assigned first, then the upvoters query runs, then the notifications are
  added and the session is committed; an exception before the commit leaves the store as
  it was. With a valid status the upvoters query raises, so the commit is never reached.
\<close>

definition update_status :: "db \<Rightarrow> int \<Rightarrow> int \<Rightarrow> string option \<Rightarrow> pyexc + (db \<times> redirect)" where
  "update_status s current_user iid new_status =
     (case get_user s current_user of
        None \<Rightarrow> Inr (s, Redirect ''main.login'' [])
      | Some cu \<Rightarrow>
          if \<not> is_moderator cu then Inr (s, Redirect ''main.index'' [''Permission denied.''])
          else
            (case get_issue s iid of
               None \<Rightarrow> Inr (s, Redirect ''main.view_issue'' [''Issue not found.''])
             | Some i \<Rightarrow>
                 (case new_status of
                    None \<Rightarrow> Inr (s, Redirect ''main.view_issue'' [''Invalid status.''])
                  | Some st \<Rightarrow>
                      if st \<notin> set valid_statuses
                      then Inr (s, Redirect ''main.view_issue'' [''Invalid status.''])
                      else
                        (case get_user s (reporter_id i) of
                           None \<Rightarrow>
                             if st = ''Resolved''
                             then Inl (AttributeError
                                         ''NoneType has no attribute reputation_points'')
                             else
                               (case select_upvoters_joinedload s i of
                                  Inl e \<Rightarrow> Inl e
                                | Inr upvoters \<Rightarrow>
                                    Inl (AttributeError
                                           ''NoneType has no attribute add_notification''))
                         | Some reporter \<Rightarrow>
                             (case select_upvoters_joinedload s i of
                                Inl e \<Rightarrow> Inl e
                              | Inr upvoters \<Rightarrow>
                                  Inr (s\<lparr>issues := set_status iid st (issues s),
                                         users :=
                                           (if st = ''Resolved''
                                            then set_reputation_points (reporter_id i)
                                                   (or0 (reputation_points reporter) + 20)
                                                   (users s)
                                            else users s),
                                         notifications :=
                                           notifications s @
                                             status_notifications i upvoters st\<rparr>,
                                       Redirect ''main.view_issue'' []))))))"

text \<open>
  \<^verbatim>\<open>update_status\<close> of Version 1: the upvoters query has no loader option and
  returns; the reputation is raised only when it \<^verbatim>\<open>is not None\<close>, a missing issue is
  not flashed, a success is.
\<close>

definition update_status_v1 :: "db \<Rightarrow> int \<Rightarrow> int \<Rightarrow> string option \<Rightarrow> pyexc + (db \<times> redirect)" where
  "update_status_v1 s current_user iid new_status =
     (case get_user s current_user of
        None \<Rightarrow> Inr (s, Redirect ''main.login'' [])
      | Some cu \<Rightarrow>
          if \<not> is_moderator cu
          then Inr (s, Redirect ''main.index''
                         [''You do not have permission to perform this action.''])
          else
            (case get_issue s iid of
               None \<Rightarrow> Inr (s, Redirect ''main.view_issue'' [])
             | Some i \<Rightarrow>
                 (case new_status of
                    None \<Rightarrow> Inr (s, Redirect ''main.view_issue'' [''Invalid status.''])
                  | Some st \<Rightarrow>
                      if st \<notin> set valid_statuses
                      then Inr (s, Redirect ''main.view_issue'' [''Invalid status.''])
                      else
                        (case get_user s (reporter_id i) of
                           None \<Rightarrow>
                             Inl (AttributeError ''NoneType has no attribute reputation_points'')
                         | Some reporter \<Rightarrow>
                             Inr (s\<lparr>issues := set_status iid st (issues s),
                                    users :=
                                      (case reputation_points reporter of
                                         Some rep \<Rightarrow>
                                           if st = ''Resolved''
                                           then set_reputation_points (reporter_id i) (rep + 20)
                                                  (users s)
                                           else users s
                                       | None \<Rightarrow> users s),
                                    notifications :=
                                      notifications s @
                                        status_notifications i (select_upvoters s i) st\<rparr>,
                                  Redirect ''main.view_issue''
                                    [''Issue status has been updated and followers notified.''])))))"

text \<open>
  \<^verbatim>\<open>Issue.generate_and_set_embedding\<close> of Version 2: its body is \<^verbatim>\<open>pass\<close>.
\<close>

definition generate_and_set_embedding :: "issue \<Rightarrow> issue" where
  "generate_and_set_embedding i = i"

text \<open>The primary key the store gives a new issue row.\<close>

definition fresh_issue_id :: "db \<Rightarrow> int" where
  "fresh_issue_id s = fold max (map issue_id (issues s)) 0 + 1"

text \<open>
  \<^verbatim>\<open>report_issue\<close>: \<open>form_valid\<close> is the outcome of \<^verbatim>\<open>form.validate_on_submit()\<close>,
  \<open>lat\<close> and \<open>lng\<close> the form's coordinates parsed as floats (\<open>None\<close> when absent or
  unparsable). The constructor call names no embedding, and neither version calls
  \<^verbatim>\<open>generate_and_set_embedding\<close> (Version 1 has the call commented out), so the new
  row's embedding is NULL; \<^verbatim>\<open>status\<close> and \<^verbatim>\<open>upvote_count\<close> take the column defaults.
  \<open>cat\<close> and \<open>descr\<close> are \<^verbatim>\<open>form.category.data\<close> and
  \<^verbatim>\<open>form.description.data\<close> after validation (Version 2's validator has by then
  sanitised the description with \<^verbatim>\<open>bleach.clean\<close>). The messages are Version 2's;
  Version 1's end with a full stop. The photo upload and the form's field errors are not
  modelled.
\<close>

definition report_issue ::
  "db \<Rightarrow> int \<Rightarrow> bool \<Rightarrow> real option \<Rightarrow> real option \<Rightarrow> string \<Rightarrow> string \<Rightarrow> db \<times> nat \<times> json" where
  "report_issue s current_user form_valid lat lng cat descr =
     (case get_user s current_user of
        None \<Rightarrow> (s, 302, JNull)
      | Some cu \<Rightarrow>
          if \<not> form_valid then (s, 400, JObject [(''success'', JBool False)])
          else
            (case (lat, lng) of
               (Some la, Some lo) \<Rightarrow>
                 (let i = \<lparr>issue_id = fresh_issue_id s, category = cat, description = descr,
                            latitude = la, longitude = lo, status = ''Reported'',
                            upvote_count = Some 0, embedding = None,
                            reporter_id = current_user\<rparr>
                  in (s\<lparr>issues := issues s @ [i],
                        users := set_reputation_points current_user
                                   (or0 (reputation_points cu) + 5) (users s)\<rparr>,
                      200,
                      JObject [(''success'', JBool True),
                               (''issue'', JObject [(''id'', JInt (issue_id i)),
                                                    (''title'', JStr (category i)),
                                                    (''lat'', JNum (latitude i)),
                                                    (''lng'', JNum (longitude i))])]))
             | _ \<Rightarrow>
                 (s, 400, JObject [(''success'', JBool False),
                                   (''error'', JStr ''Missing coordinates'')])))"

section \<open>Duplicate detector\<close>

text \<open>An entry of \<^verbatim>\<open>existing_issues_data\<close>: \<^verbatim>\<open>{'id', 'title', 'description'}\<close>.\<close>

record issue_data =
  data_id :: int
  data_title :: string
  data_description :: string

text \<open>
  The external classifier and the JSON library, as injected capabilities: each either
  raises an \<^verbatim>\<open>Exception\<close> or returns. \<open>configure\<close> is \<^verbatim>\<open>_configure_genai()\<close>,
  \<open>generate_content\<close> maps the prompt to \<^verbatim>\<open>response.text\<close>.
\<close>

record genai =
  configure :: "pyexc + unit"
  json_dumps :: "issue_data list \<Rightarrow> pyexc + string"
  generate_content :: "string \<Rightarrow> pyexc + string"
  json_loads :: "string \<Rightarrow> pyexc + json"

text \<open>What a run does to the outside world, in order.\<close>

datatype event = Configured | ClassifierCalled string | ErrorLogged string

text \<open>\<^verbatim>\<open>str.replace(old, new)\<close>: non-overlapping occurrences, left to right.\<close>

function replace :: "string \<Rightarrow> string \<Rightarrow> string \<Rightarrow> string" where
  "replace old new [] = (if old = [] then new else [])"
| "replace old new (c # cs) =
     (if old = [] then new @ concat (map (\<lambda>x. x # new) (c # cs))
      else if take (length old) (c # cs) = old
           then new @ replace old new (drop (length old) (c # cs))
           else c # replace old new cs)"
  by pat_completeness auto
termination
  by (relation "measure (\<lambda>(old, new, s). length s)") auto

text \<open>\<^verbatim>\<open>response.text.strip().replace('```json', '').replace('```', '')\<close>\<close>

definition clean_response :: "string \<Rightarrow> string" where
  "clean_response t = replace ''```'' [] (replace ''```json'' [] (strip t))"

definition apostrophe :: string where
  "apostrophe = [CHR 0x27]"

definition quoted :: "string \<Rightarrow> string" where
  "quoted t = apostrophe @ t @ apostrophe"

text \<open>The prompt of Version 2.\<close>

definition duplicate_prompt :: "string \<Rightarrow> string \<Rightarrow> string" where
  "duplicate_prompt new_description existing_reports_str =
     ''You are an issue analysis expert. Based on the text descriptions, determine if the '' @
     quoted ''new_report'' @ '' is a duplicate of any '' @ quoted ''existing_reports'' @
     ''. Be strict; only identify a '' @
     ''duplicate if it clearly describes the same problem. Return a single, minified JSON '' @
     ''object: {'' @ quoted ''is_duplicate'' @ '': true, '' @ quoted ''duplicate_id'' @
     '': ID} for duplicates, or '' @
     ''{'' @ quoted ''is_duplicate'' @ '': false} if none match.\<newline>\<newline>'' @
     ''NEW REPORT: '' @ new_description @ ''\<newline>\<newline>'' @
     ''EXISTING REPORTS: '' @ existing_reports_str"

text \<open>The prompt of Version 1.\<close>

definition duplicate_prompt_v1 :: "string \<Rightarrow> string \<Rightarrow> string" where
  "duplicate_prompt_v1 new_description existing_reports_str =
     ''You are an issue analysis expert. Based on the text descriptions, is the '' @
     quoted ''new_report'' @ '' a duplicate of any of the '' @ quoted ''existing_reports'' @
     ''? Be strict in your matching; '' @
     ''only identify a duplicate if it clearly describes the exact same problem. If you find a '' @
     ''duplicate, return a single, minified JSON object: {\"is_duplicate\": true, \"duplicate_id\": ID_OF_THE_DUPLICATE}. '' @
     ''If none match, return {\"is_duplicate\": false}.\<newline>\<newline>'' @
     ''NEW REPORT: \"'' @ new_description @ ''\"\<newline>\<newline>'' @
     ''EXISTING REPORTS: '' @ existing_reports_str"

definition not_duplicate :: json where
  "not_duplicate = JObject [(''is_duplicate'', JBool False)]"

text \<open>
  The body of the \<^verbatim>\<open>try\<close> block of \<^verbatim>\<open>find_duplicate_issue\<close>: the value returned or
  the exception raised, with the events up to that point. The two versions differ in the
  prompt only, which is the first argument.
\<close>

definition duplicate_try ::
  "(string \<Rightarrow> string \<Rightarrow> string) \<Rightarrow> genai \<Rightarrow> string \<Rightarrow> issue_data list \<Rightarrow>
   (pyexc + json) \<times> event list" where
  "duplicate_try prompt_of ai new_description existing_issues =
     (case configure ai of
        Inl e \<Rightarrow> (Inl e, [])
      | Inr _ \<Rightarrow>
          (case json_dumps ai existing_issues of
             Inl e \<Rightarrow> (Inl e, [Configured])
           | Inr existing_reports_str \<Rightarrow>
               (let prompt = prompt_of new_description existing_reports_str in
                case generate_content ai prompt of
                  Inl e \<Rightarrow> (Inl e, [Configured, ClassifierCalled prompt])
                | Inr t \<Rightarrow>
                    (json_loads ai (clean_response t), [Configured, ClassifierCalled prompt]))))"

text \<open>
  \<^verbatim>\<open>find_duplicate_issue\<close>: \<^verbatim>\<open>except Exception\<close> logs the error and returns
  \<^verbatim>\<open>{'is_duplicate': False}\<close>. The result is the value returned to the caller or the
  exception raised to it.
\<close>

definition find_duplicate_issue_with ::
  "(string \<Rightarrow> string \<Rightarrow> string) \<Rightarrow> genai \<Rightarrow> string \<Rightarrow> issue_data list \<Rightarrow>
   (pyexc + json) \<times> event list" where
  "find_duplicate_issue_with prompt_of ai new_description existing_issues =
     (if existing_issues = [] then (Inr not_duplicate, [])
      else
        (case duplicate_try prompt_of ai new_description existing_issues of
           (Inl e, evs) \<Rightarrow>
             (Inr not_duplicate,
              evs @ [ErrorLogged (''Gemini API error (duplicate check): '' @ exc_message e)])
         | (Inr r, evs) \<Rightarrow> (Inr r, evs)))"

definition find_duplicate_issue ::
  "genai \<Rightarrow> string \<Rightarrow> issue_data list \<Rightarrow> (pyexc + json) \<times> event list" where
  "find_duplicate_issue = find_duplicate_issue_with duplicate_prompt"

definition find_duplicate_issue_v1 ::
  "genai \<Rightarrow> string \<Rightarrow> issue_data list \<Rightarrow> (pyexc + json) \<times> event list" where
  "find_duplicate_issue_v1 = find_duplicate_issue_with duplicate_prompt_v1"

text \<open>Truth value of a JSON value in Python.\<close>

fun json_truthy :: "json \<Rightarrow> bool" where
  "json_truthy JNull = False"
| "json_truthy (JBool b) = b"
| "json_truthy (JInt n) = (n \<noteq> 0)"
| "json_truthy (JNum x) = (x \<noteq> 0)"
| "json_truthy (JStr t) = (t \<noteq> [])"
| "json_truthy (JList l) = (l \<noteq> [])"
| "json_truthy (JObject kv) = (kv \<noteq> [])"

text \<open>\<^verbatim>\<open>result.get(key)\<close> on a dict.\<close>

definition dict_get :: "(string \<times> json) list \<Rightarrow> string \<Rightarrow> json" where
  "dict_get kv k = (case map_of kv k of None \<Rightarrow> JNull | Some v \<Rightarrow> v)"

text \<open>
  \<^verbatim>\<open>db.session.get(Issue, result.get('duplicate_id'))\<close> for an integer identity.
  What the store does with an identity of another JSON type (a numeric string, a float, a
  boolean) is not modelled: such an identity is taken to load no row.
\<close>

definition get_issue_json :: "db \<Rightarrow> json \<Rightarrow> issue option" where
  "get_issue_json s j = (case j of JInt n \<Rightarrow> get_issue s n | _ \<Rightarrow> None)"

text \<open>
  \<^verbatim>\<open>check_duplicates\<close>: \<open>lat\<close> and \<open>lng\<close> are \<^verbatim>\<open>float(data.get('lat'))\<close> and
  \<^verbatim>\<open>float(data.get('lng'))\<close>, \<open>None\<close> when the conversion raises \<^verbatim>\<open>TypeError\<close>
  or \<^verbatim>\<open>ValueError\<close>. The result is the status code and body, or the exception that
  escapes, with the events of the run.
\<close>

definition check_duplicates ::
  "genai \<Rightarrow> db \<Rightarrow> real option \<Rightarrow> real option \<Rightarrow> string \<Rightarrow> (pyexc + nat \<times> json) \<times> event list" where
  "check_duplicates ai s lat lng descr =
     (case (lat, lng) of
        (Some la, Some lo) \<Rightarrow>
          (let nearby = nearby_issues s la lo in
           if nearby = [] then (Inr (200, not_duplicate), [])
           else
             (let existing_issues_data =
                    map (\<lambda>i. \<lparr>data_id = issue_id i, data_title = category i,
                               data_description = description i\<rparr>) nearby
              in case find_duplicate_issue ai descr existing_issues_data of
                   (Inl e, evs) \<Rightarrow> (Inl e, evs)
                 | (Inr (JObject kv), evs) \<Rightarrow>
                     (if json_truthy (dict_get kv ''is_duplicate'') then
                        (case get_issue_json s (dict_get kv ''duplicate_id'') of
                           Some d \<Rightarrow>
                             (Inr (200, JObject (AList.update ''duplicate_title''
                                                   (JStr (category d)) kv)), evs)
                         | None \<Rightarrow> (Inr (200, JObject kv), evs))
                      else (Inr (200, JObject kv), evs))
                 | (Inr _, evs) \<Rightarrow> (Inl (AttributeError ''object has no attribute get''), evs)))
      | _ \<Rightarrow> (Inr (400, JObject [(''error'', JStr ''Invalid coordinates'')]), []))"

section \<open>Stores the routes build\<close>

text \<open>
  The stores reached from one without issues and upvotes by the modelled routes of
  either version, one request after the other.
\<close>

inductive reachable :: "db \<Rightarrow> bool" where
  initial: "issues s = [] \<Longrightarrow> upvotes s = [] \<Longrightarrow> reachable s"
| reported: "reachable s \<Longrightarrow> report_issue s cu fv lat lng cat descr = (s', r) \<Longrightarrow> reachable s'"
| upvoted: "reachable s \<Longrightarrow> upvote s cu iid = Inr (s', r) \<Longrightarrow> reachable s'"
| status_updated: "reachable s \<Longrightarrow> update_status s cu iid st = Inr (s', rd) \<Longrightarrow> reachable s'"
| status_updated_v1:
    "reachable s \<Longrightarrow> update_status_v1 s cu iid st = Inr (s', rd) \<Longrightarrow> reachable s'"

text \<open>No user holds two upvotes on one issue.\<close>

definition one_vote_each :: "db \<Rightarrow> bool" where
  "one_vote_each s = distinct (upvotes s)"

text \<open>The \<^verbatim>\<open>reporter\<close> relationship of every issue resolves to a user.\<close>

definition reporters_exist :: "db \<Rightarrow> bool" where
  "reporters_exist s = list_all (\<lambda>i. get_user s (reporter_id i) \<noteq> None) (issues s)"

text \<open>The number of \<^verbatim>\<open>Upvote\<close> rows stored for an issue.\<close>

definition upvote_records :: "db \<Rightarrow> int \<Rightarrow> nat" where
  "upvote_records s k = length (filter (\<lambda>v. upvote_issue_id v = k) (upvotes s))"

text \<open>Every issue's \<^verbatim>\<open>upvote_count\<close> (NULL read as 0) is the number of its rows.\<close>

definition vote_consistent :: "db \<Rightarrow> bool" where
  "vote_consistent s =
     list_all (\<lambda>i. or0 (upvote_count i) = int (upvote_records s (issue_id i))) (issues s)"

text \<open>No issue has an embedding.\<close>

definition embeddings_unset :: "db \<Rightarrow> bool" where
  "embeddings_unset s = list_all (\<lambda>i. embedding i = None) (issues s)"

text \<open>Every upvote row points to a stored issue.\<close>

definition upvotes_refer :: "db \<Rightarrow> bool" where
  "upvotes_refer s =
     list_all (\<lambda>v. list_ex (\<lambda>i. issue_id i = upvote_issue_id v) (issues s)) (upvotes s)"

text \<open>What holds of every store the routes build.\<close>

definition store_inv :: "db \<Rightarrow> bool" where
  "store_inv s =
     (one_vote_each s \<and> reporters_exist s \<and> vote_consistent s \<and> embeddings_unset s \<and>
      upvotes_refer s \<and> distinct (map issue_id (issues s)))"

section \<open>Observations used to state the properties\<close>

text \<open>
  The cosine similarity of an issue to the query, when the issue has an embedding and the
  computation yields a number.
\<close>

definition similarity_to :: "real list \<Rightarrow> issue \<Rightarrow> real option" where
  "similarity_to qv i =
     (case embedding i of
        None \<Rightarrow> None
      | Some v \<Rightarrow>
          (case cosine_similarity qv v of
             Inr (Num x) \<Rightarrow> Some x
           | _ \<Rightarrow> None))"

section \<open>Example data\<close>

text \<open>
  A small store: the reporter, a moderator and a user whose reputation is NULL; issue A of
  the spec's scenario at (10.0, 20.0) with embedding [1, 0], and issues around it.
\<close>

definition reporter_1 :: user where
  "reporter_1 = \<lparr>user_id = 1, reputation_points = Some 0, is_moderator = False\<rparr>"

definition moderator_2 :: user where
  "moderator_2 = \<lparr>user_id = 2, reputation_points = Some 7, is_moderator = True\<rparr>"

definition newcomer_3 :: user where
  "newcomer_3 = \<lparr>user_id = 3, reputation_points = None, is_moderator = False\<rparr>"

definition issue_a :: issue where
  "issue_a = \<lparr>issue_id = 1, category = ''Pothole'', description = ''Deep pothole'',
               latitude = 10, longitude = 20, status = ''Reported'', upvote_count = Some 0,
               embedding = Some [1, 0], reporter_id = 1\<rparr>"

definition issue_b :: issue where
  "issue_b = \<lparr>issue_id = 2, category = ''Graffiti'', description = ''Tag on wall'',
               latitude = 10.05, longitude = 20.05, status = ''Reported'',
               upvote_count = Some 0, embedding = Some [0.8, 0.6], reporter_id = 1\<rparr>"

definition issue_c :: issue where
  "issue_c = \<lparr>issue_id = 3, category = ''Flooding'', description = ''Blocked drain'',
               latitude = 10.06, longitude = 20, status = ''Reported'', upvote_count = None,
               embedding = Some [0, 1], reporter_id = 3\<rparr>"

definition issue_d :: issue where
  "issue_d = \<lparr>issue_id = 4, category = ''Other'', description = ''No embedding'',
               latitude = 10, longitude = 20, status = ''Reported'', upvote_count = Some 0,
               embedding = None, reporter_id = 1\<rparr>"

definition issue_z :: issue where
  "issue_z = \<lparr>issue_id = 5, category = ''Other'', description = ''Zero embedding'',
               latitude = 10, longitude = 20, status = ''Reported'', upvote_count = Some 0,
               embedding = Some [0, 0], reporter_id = 1\<rparr>"

definition store_0 :: db where
  "store_0 = \<lparr>users = [reporter_1, moderator_2, newcomer_3],
               issues = [issue_a, issue_b, issue_c],
               upvotes = [], notifications = []\<rparr>"

text \<open>A store with users only, and the store after one report.\<close>

definition users_only :: db where
  "users_only = \<lparr>users = [reporter_1, moderator_2, newcomer_3], issues = [], upvotes = [],
                  notifications = []\<rparr>"

definition store_reported :: db where
  "store_reported =
     fst (report_issue users_only 1 True (Some 10) (Some 20) ''Pothole'' ''Deep pothole'')"

text \<open>Services that resolve no location and embed every text as [1, 0].\<close>

definition example_services :: services where
  "example_services =
     \<lparr>get_coords_for_location = (\<lambda>_. None), generate_embedding = (\<lambda>_ _. Some [1, 0])\<rparr>"

text \<open>A classifier whose call raises, and one whose answer is not JSON.\<close>

definition failing_ai :: genai where
  "failing_ai =
     \<lparr>configure = Inr (), json_dumps = (\<lambda>_. Inr ''[...]''),
      generate_content = (\<lambda>_. Inl (OtherException ''503 service unavailable'')),
      json_loads = (\<lambda>_. Inr JNull)\<rparr>"

definition chatty_ai :: genai where
  "chatty_ai =
     \<lparr>configure = Inr (), json_dumps = (\<lambda>_. Inr ''[...]''),
      generate_content = (\<lambda>_. Inr ''I think these are different.''),
      json_loads = (\<lambda>_. Inl (ValueError ''Expecting value''))\<rparr>"

definition nearby_a :: issue_data where
  "nearby_a = \<lparr>data_id = 1, data_title = ''Pothole'', data_description = ''Deep pothole''\<rparr>"

section \<open>The geo-bounded candidate filter is a closed box\<close>

text \<open>
  C1. For every centre and radius, a row passes the \<^verbatim>\<open>where\<close> clause exactly when
  its latitude lies in \<open>[lat - r, lat + r]\<close> and its longitude in \<open>[lng - r, lng + r]\<close>,
  bounds included, each axis on its own. \<^verbatim>\<open>check_duplicates\<close> applies the clause with
  radius 0.001 and \<^verbatim>\<open>search\<close> with radius 0.05 around the geocoded location. No
  distance enters: the corner \<open>(lat + r, lng + r)\<close>, at distance \<open>r * sqrt 2\<close> from the
  centre, passes.
\<close>

theorem geo_filter_box:
  "(i \<in> set (filter (geo_where lat lng r) rows) \<longleftrightarrow>
      i \<in> set rows \<and> lat - r \<le> latitude i \<and> latitude i \<le> lat + r \<and>
      lng - r \<le> longitude i \<and> longitude i \<le> lng + r) \<and>
   nearby_issues s lat lng = filter (geo_where lat lng 0.001) (issues s) \<and>
   search_candidates env s loc =
     (if loc = [] then Some (issues s)
      else (case get_coords_for_location env loc of
              None \<Rightarrow> None
            | Some (la, lo) \<Rightarrow> Some (filter (geo_where la lo 0.05) (issues s)))) \<and>
   (0 \<le> r \<longrightarrow> geo_where lat lng r (i\<lparr>latitude := lat + r, longitude := lng + r\<rparr>))"
  by (auto simp: geo_where_def between_def nearby_issues_def search_candidates_def
      duplicate_radius_def search_radius_def split: option.splits)

theorem geo_filter_box_witness:
  "issue_b \<in> set (filter (geo_where 10 20 0.05) [issue_a, issue_b, issue_c]) \<and>
   issue_c \<notin> set (filter (geo_where 10 20 0.05) [issue_a, issue_b, issue_c]) \<and>
   geo_where 10 20 0.05 (issue_a\<lparr>latitude := 10 + 0.05, longitude := 20 + 0.05\<rparr>)"
proof -
  have b: "issue_b \<in> set (filter (geo_where 10 20 0.05) [issue_a, issue_b, issue_c])"
    using geo_filter_box [of issue_b 10 20 "0.05" "[issue_a, issue_b, issue_c]"]
    by (simp add: issue_b_def)
  have c: "issue_c \<notin> set (filter (geo_where 10 20 0.05) [issue_a, issue_b, issue_c])"
    using geo_filter_box [of issue_c 10 20 "0.05" "[issue_a, issue_b, issue_c]"]
    by (simp add: issue_c_def)
  have d: "geo_where 10 20 0.05 (issue_a\<lparr>latitude := 10 + 0.05, longitude := 20 + 0.05\<rparr>)"
    using geo_filter_box [of issue_a 10 20 "0.05"] by simp
  from b c d show ?thesis by simp
qed

text \<open>A search by location alone returns the box around the geocoded point.\<close>

lemma search_location_only:
  assumes "strip q = []" and "strip loc \<noteq> []"
    and "get_coords_for_location env (strip loc) = Some (lat, lng)"
  shows "search env s q loc =
           Inr (SearchResults (filter (geo_where lat lng 0.05) (issues s)) [])"
  using assms by (simp add: search_def search_candidates_def search_radius_def)

section \<open>Cosine similarity on a zero vector\<close>

text \<open>A norm is zero exactly for a zero vector, and then every dot product is zero.\<close>

lemma sum_squares_zero: "sum_list (map (\<lambda>x::real. x * x) v) = 0 \<longleftrightarrow> (\<forall>x\<in>set v. x = 0)"
proof (induction v)
  case Nil
  then show ?case by simp
next
  case (Cons a v)
  have nn: "0 \<le> sum_list (map (\<lambda>x::real. x * x) v)"
    by (rule sum_list_nonneg) auto
  have "a * a + sum_list (map (\<lambda>x. x * x) v) = 0 \<longleftrightarrow> a * a = 0 \<and> sum_list (map (\<lambda>x. x * x) v) = 0"
    using nn by (simp add: add_nonneg_eq_0_iff)
  with Cons show ?case by simp
qed

lemma np_norm_zero_iff: "np_norm v = 0 \<longleftrightarrow> (\<forall>x\<in>set v. x = 0)"
  by (simp add: np_norm_def sum_squares_zero)

lemma dot_zero_left: "\<forall>x\<in>set v1. x = 0 \<Longrightarrow> sum_list (map2 (*) v1 v2) = (0::real)"
  by (induction v1 arbitrary: v2) (auto simp: zip_Cons1 split: list.splits)

lemma dot_zero_right: "\<forall>x\<in>set v2. x = 0 \<Longrightarrow> sum_list (map2 (*) v1 v2) = (0::real)"
  by (induction v2 arbitrary: v1) (auto simp: zip_Cons split: list.splits)

lemma np_dot_zero_divisor:
  "np_norm v1 * np_norm v2 = 0 \<Longrightarrow> np_dot v1 v2 = Inr d \<Longrightarrow> d = 0"
  by (auto simp: np_dot_def np_norm_zero_iff dot_zero_left dot_zero_right split: if_splits)

text \<open>
  C9. The computation has no guard for a zero vector: when the candidate's embedding or
  the query is a zero vector (of matching length), the divisor
  \<open>np_norm qv * np_norm v\<close> is zero and \<^verbatim>\<open>cosine_similarity\<close> yields not-a-number,
  not 0; the candidate is not left out of the \<^verbatim>\<open>similarities\<close> dict, which holds
  not-a-number for it.
\<close>

theorem zero_vector_similarity_undefined:
  assumes "length v = length qv" and "v \<noteq> []" and "(\<forall>x\<in>set v. x = 0) \<or> (\<forall>x\<in>set qv. x = 0)"
  shows "np_norm qv * np_norm v = 0 \<and>
         cosine_similarity qv v = Inr NaN \<and>
         cosine_similarity qv v \<noteq> Inr (Num 0) \<and>
         similarities qv [i\<lparr>embedding := Some v\<rparr>] = Inr [(issue_id i, NaN)]"
proof -
  have z: "np_norm qv * np_norm v = 0"
    using assms(3) by (auto simp: np_norm_zero_iff)
  have c: "cosine_similarity qv v = Inr NaN"
    using z assms(1) by (simp add: cosine_similarity_def np_dot_def)
  have s: "similarities qv [i\<lparr>embedding := Some v\<rparr>] = Inr [(issue_id i, NaN)]"
    using c assms(2) by (simp add: similarities_def)
  from z c s show ?thesis by simp
qed

theorem zero_vector_similarity_undefined_witness:
  "np_norm [1, 0] * np_norm [0, 0] = 0 \<and>
   cosine_similarity [1, 0] [0, 0] = Inr NaN \<and>
   similarities [1, 0] [issue_z] = Inr [(5, NaN)] \<and>
   cosine_similarity [0, 0] [1, 0] = Inr NaN"
proof -
  have a: "np_norm [1, 0] * np_norm [0, 0] = 0 \<and>
         cosine_similarity [1, 0] [0, 0] = Inr NaN \<and>
         cosine_similarity [1, 0] [0, 0] \<noteq> Inr (Num 0) \<and>
         similarities [1, 0] [issue_z\<lparr>embedding := Some [0, 0]\<rparr>] = Inr [(issue_id issue_z, NaN)]"
    by (rule zero_vector_similarity_undefined) simp_all
  have b: "cosine_similarity [0, 0] [1, 0] = Inr NaN"
    using zero_vector_similarity_undefined [of "[1, 0]" "[0, 0]" issue_z] by simp
  have e: "issue_z\<lparr>embedding := Some [0, 0]\<rparr> = issue_z" "issue_id issue_z = 5"
    by (simp_all add: issue_z_def)
  from a b e show ?thesis by simp
qed

text \<open>
  The not-a-number entry fails the test \<^verbatim>\<open>score > threshold\<close>, so the ranked list
  omits such a candidate without any error.
\<close>

lemma zero_vector_candidate_not_ranked:
  assumes "length v = length qv" and "v \<noteq> []" and "(\<forall>x\<in>set v. x = 0) \<or> (\<forall>x\<in>set qv. x = 0)"
  shows "rank_issues qv [i\<lparr>embedding := Some v\<rparr>] = Inr []"
proof -
  have "np_norm qv * np_norm v = 0"
    using assms(3) by (auto simp: np_norm_zero_iff)
  then have "cosine_similarity qv v = Inr NaN"
    using assms(1) by (simp add: cosine_similarity_def np_dot_def)
  then have "similarities qv [i\<lparr>embedding := Some v\<rparr>] = Inr [(issue_id i, NaN)]"
    using assms(2) by (simp add: similarities_def)
  then show ?thesis
    by (simp add: rank_issues_def sorted_ids_def List.map_filter_simps)
qed

section \<open>The similarity ranker\<close>

subsection \<open>The dicts of the ranking block\<close>

lemma similarities_from_keys_distinct:
  "similarities_from qv cands acc = Inr sims \<Longrightarrow> distinct (map fst acc) \<Longrightarrow> distinct (map fst sims)"
  by (induction cands arbitrary: acc)
     (auto simp: AList.distinct_update split: option.splits if_splits sum.splits)

lemma similarities_from_origin:
  "similarities_from qv cands acc = Inr sims \<Longrightarrow> map_of sims sid = Some sc \<Longrightarrow>
   map_of acc sid = Some sc \<or>
   (\<exists>i\<in>set cands. issue_id i = sid \<and>
      (\<exists>v. embedding i = Some v \<and> v \<noteq> [] \<and> cosine_similarity qv v = Inr sc))"
proof (induction cands arbitrary: acc)
  case Nil
  then show ?case by simp
next
  case (Cons i rest)
  show ?case
  proof (cases "embedding i")
    case None
    with Cons.prems have "similarities_from qv rest acc = Inr sims" by simp
    from Cons.IH [OF this Cons.prems(2)] show ?thesis by auto
  next
    case (Some v)
    show ?thesis
    proof (cases "v = []")
      case True
      with Some Cons.prems have "similarities_from qv rest acc = Inr sims" by simp
      from Cons.IH [OF this Cons.prems(2)] show ?thesis by auto
    next
      case False
      with Some Cons.prems obtain c where c: "cosine_similarity qv v = Inr c"
        and r: "similarities_from qv rest (AList.update (issue_id i) c acc) = Inr sims"
        by (auto split: sum.splits)
      from Cons.IH [OF r Cons.prems(2)]
      show ?thesis using Some False c
        by (auto simp: AList.update_conv' split: if_splits)
    qed
  qed
qed

lemma similarities_from_untouched:
  "similarities_from qv cands acc = Inr sims \<Longrightarrow> sid \<notin> issue_id ` set cands \<Longrightarrow>
   map_of sims sid = map_of acc sid"
  by (induction cands arbitrary: acc)
     (auto simp: AList.update_conv' split: option.splits if_splits sum.splits)

lemma similarities_from_holds:
  "similarities_from qv cands acc = Inr sims \<Longrightarrow> distinct (map issue_id cands) \<Longrightarrow>
   i \<in> set cands \<Longrightarrow> embedding i = Some v \<Longrightarrow> v \<noteq> [] \<Longrightarrow>
   \<exists>sc. cosine_similarity qv v = Inr sc \<and> map_of sims (issue_id i) = Some sc"
proof (induction cands arbitrary: acc)
  case Nil
  then show ?case by simp
next
  case (Cons j rest)
  show ?case
  proof (cases "i = j")
    case True
    with Cons.prems obtain c where c: "cosine_similarity qv v = Inr c"
      and r: "similarities_from qv rest (AList.update (issue_id i) c acc) = Inr sims"
      by (auto split: sum.splits)
    from Cons.prems(2) True have "issue_id i \<notin> issue_id ` set rest" by auto
    from similarities_from_untouched [OF r this] c show ?thesis
      by (simp add: AList.update_conv')
  next
    case False
    with Cons.prems(3) have m: "i \<in> set rest" by simp
    from Cons.prems(2) have d: "distinct (map issue_id rest)" by simp
    from Cons.prems(1) obtain acc' where "similarities_from qv rest acc' = Inr sims"
      by (auto split: option.splits if_splits sum.splits)
    from Cons.IH [OF this d m Cons.prems(4,5)] show ?thesis .
  qed
qed

lemma relevant_ids_iff:
  "(sid, x) \<in> set (relevant_ids sims) \<longleftrightarrow> (sid, Num x) \<in> set sims \<and> threshold < x"
  by (induction sims rule: relevant_ids.induct) auto

lemma set_sorted_ids: "set (sorted_ids rel) = fst ` set rel"
  by (simp add: sorted_ids_def)

lemma issue_map_SomeD: "issue_map cands sid = Some i \<Longrightarrow> i \<in> set cands \<and> issue_id i = sid"
  by (auto simp: issue_map_def dest!: map_of_SomeD)

lemma issue_map_distinct:
  "distinct (map issue_id cands) \<Longrightarrow> i \<in> set cands \<Longrightarrow> issue_map cands (issue_id i) = Some i"
proof -
  assume d: "distinct (map issue_id cands)" and m: "i \<in> set cands"
  have "map fst (rev (map (\<lambda>i. (issue_id i, i)) cands)) = rev (map issue_id cands)"
    by (simp add: rev_map comp_def)
  with d have "distinct (map fst (rev (map (\<lambda>i. (issue_id i, i)) cands)))" by simp
  moreover from m have "(issue_id i, i) \<in> set (rev (map (\<lambda>i. (issue_id i, i)) cands))" by auto
  ultimately show ?thesis unfolding issue_map_def by (rule map_of_is_SomeI)
qed

lemma set_map_filter: "set (List.map_filter f xs) = {y. \<exists>x\<in>set xs. f x = Some y}"
  by (induction xs) (auto simp: List.map_filter_simps split: option.splits)

text \<open>A relevant id maps to an issue whose similarity is the stored score.\<close>

lemma relevant_score:
  assumes s: "similarities qv cands = Inr sims"
    and d: "distinct (map issue_id cands)"
    and r: "(sid, x) \<in> set (relevant_ids sims)"
    and m: "issue_map cands sid = Some i"
  shows "similarity_to qv i = Some x \<and> threshold < x"
proof -
  from r have in_sims: "(sid, Num x) \<in> set sims" and gt: "threshold < x"
    by (simp_all add: relevant_ids_iff)
  from s have "distinct (map fst sims)"
    unfolding similarities_def by (rule similarities_from_keys_distinct) simp
  with in_sims have "map_of sims sid = Some (Num x)" by simp
  with s obtain j v where j: "j \<in> set cands" "issue_id j = sid" "embedding j = Some v"
    "cosine_similarity qv v = Inr (Num x)"
    unfolding similarities_def by (auto dest!: similarities_from_origin)
  from m have "i \<in> set cands" "issue_id i = sid" by (auto dest: issue_map_SomeD)
  with j d have "i = j" by (metis distinct_map inj_on_def)
  with j gt show ?thesis by (simp add: similarity_to_def)
qed

lemma sorted_wrt_map_filter:
  "sorted_wrt (\<lambda>a b. \<forall>x y. f a = Some x \<and> f b = Some y \<longrightarrow> P x y) xs \<Longrightarrow>
   sorted_wrt P (List.map_filter f xs)"
  by (induction xs) (auto simp: List.map_filter_simps set_map_filter split: option.splits)

lemma sorted_desc_pairs:
  "sorted_wrt (\<lambda>p q. snd q \<le> snd p) (rev (sort_key snd (rev (rel :: (int \<times> real) list))))"
proof -
  have "sorted (map snd (sort_key snd (rev rel)))" by (rule sorted_sort_key)
  then have "sorted_wrt (\<lambda>p q. snd p \<le> snd q) (sort_key snd (rev rel))"
    by (simp add: sorted_wrt_map)
  then show ?thesis by (simp add: sorted_wrt_rev)
qed

lemma similarity_to_nonempty:
  assumes "similarity_to qv i = Some x"
  shows "\<exists>v. embedding i = Some v \<and> v \<noteq> [] \<and> cosine_similarity qv v = Inr (Num x)"
proof -
  from assms obtain v where v: "embedding i = Some v" "cosine_similarity qv v = Inr (Num x)"
    by (auto simp: similarity_to_def split: option.splits sum.splits npfloat.splits)
  have "v \<noteq> []"
  proof
    assume "v = []"
    with v(2) show False
      by (auto simp: cosine_similarity_def np_dot_def np_norm_def split: if_splits)
  qed
  with v show ?thesis by simp
qed

subsection \<open>The ranking on the example data\<close>

lemma example_ids:
  "issue_id issue_a = 1" "issue_id issue_b = 2" "issue_id issue_c = 3"
  "issue_id issue_d = 4" "issue_id issue_z = 5"
  by (simp_all add: issue_a_def issue_b_def issue_c_def issue_d_def issue_z_def)

lemma example_embeddings:
  "embedding issue_a = Some [1, 0]" "embedding issue_b = Some [0.8, 0.6]"
  "embedding issue_c = Some [0, 1]" "embedding issue_d = None" "embedding issue_z = Some [0, 0]"
  by (simp_all add: issue_a_def issue_b_def issue_c_def issue_d_def issue_z_def)

lemma example_cosines:
  "cosine_similarity [1, 0] [1, 0] = Inr (Num 1)"
  "cosine_similarity [1, 0] [4 / 5, 3 / 5] = Inr (Num (4 / 5))"
  "cosine_similarity [1, 0] [0, 1] = Inr (Num 0)"
  "cosine_similarity [1, 0] [0, 0] = Inr NaN"
  by (simp_all add: cosine_similarity_def np_dot_def np_norm_def)

lemma example_similarities:
  "similarities [1, 0] [issue_c, issue_b, issue_d, issue_z, issue_a] =
     Inr [(3, Num 0), (2, Num 0.8), (5, NaN), (1, Num 1)]"
  by (simp add: similarities_def example_ids example_embeddings example_cosines)

lemma example_ranking:
  "rank_issues [1, 0] [issue_c, issue_b, issue_d, issue_z, issue_a] = Inr [issue_a, issue_b]"
  by (simp add: rank_issues_def example_similarities threshold_def sorted_ids_def
      issue_map_def example_ids)

subsection \<open>Threshold\<close>

text \<open>
  C2. Whatever the candidates (rows of the issue table, so with distinct primary keys) and
  the query embedding, every issue in the list the ranking block returns has a cosine
  similarity to the query that is a number strictly greater than 0.6; none has a
  similarity of 0.6 or less.
\<close>

theorem ranked_above_threshold:
  assumes "distinct (map issue_id cands)"
    and "rank_issues qv cands = Inr ranked"
    and "i \<in> set ranked"
  shows "(\<exists>x. similarity_to qv i = Some x \<and> 0.6 < x) \<and>
         \<not> (\<exists>x. similarity_to qv i = Some x \<and> x \<le> 0.6)"
proof -
  from assms(2) obtain sims where s: "similarities qv cands = Inr sims"
    and r: "ranked = List.map_filter (issue_map cands) (sorted_ids (relevant_ids sims))"
    by (auto simp: rank_issues_def split: sum.splits)
  from assms(3) r obtain sid where "sid \<in> set (sorted_ids (relevant_ids sims))"
    and m: "issue_map cands sid = Some i"
    by (auto simp: set_map_filter)
  then obtain x where "(sid, x) \<in> set (relevant_ids sims)"
    by (auto simp: set_sorted_ids)
  from relevant_score [OF s assms(1) this m] show ?thesis
    by (simp add: threshold_def)
qed

theorem ranked_above_threshold_witness:
  "distinct (map issue_id [issue_c, issue_b, issue_d, issue_z, issue_a]) \<and>
   rank_issues [1, 0] [issue_c, issue_b, issue_d, issue_z, issue_a] = Inr [issue_a, issue_b] \<and>
   (\<exists>x. similarity_to [1, 0] issue_b = Some x \<and> 0.6 < x)"
proof -
  have d: "distinct (map issue_id [issue_c, issue_b, issue_d, issue_z, issue_a])"
    by (simp add: example_ids)
  have m: "issue_b \<in> set [issue_a, issue_b]" by simp
  from ranked_above_threshold [OF d example_ranking m] d example_ranking
  show ?thesis by simp
qed

subsection \<open>Order\<close>

text \<open>
  C3. The list the ranking block returns holds exactly the candidates whose similarity to
  the query exceeds the threshold, in descending order of that similarity: of any two
  results the earlier one's similarity is at least the later one's. Nothing is stated
  about the order of results with equal similarity.
\<close>

theorem ranked_sorted_descending:
  assumes "distinct (map issue_id cands)"
    and "rank_issues qv cands = Inr ranked"
  shows "sorted_wrt (\<lambda>a b. \<exists>x y. similarity_to qv a = Some x \<and> similarity_to qv b = Some y \<and> y \<le> x) ranked \<and>
         set ranked = {i \<in> set cands. \<exists>x. similarity_to qv i = Some x \<and> threshold < x}"
proof -
  from assms(2) obtain sims where s: "similarities qv cands = Inr sims"
    and r: "ranked = List.map_filter (issue_map cands) (sorted_ids (relevant_ids sims))"
    by (auto simp: rank_issues_def split: sum.splits)
  let ?rel = "relevant_ids sims"
  let ?ps = "rev (sort_key snd (rev ?rel))"
  let ?R = "\<lambda>a b. \<exists>x y. similarity_to qv a = Some x \<and> similarity_to qv b = Some y \<and> y \<le> x"
  have ps_set: "set ?ps = set ?rel" by simp
  have "sorted_wrt (\<lambda>p q. snd q \<le> snd p) ?ps" by (rule sorted_desc_pairs)
  then have "sorted_wrt (\<lambda>p q. \<forall>i j. issue_map cands (fst p) = Some i \<and>
                 issue_map cands (fst q) = Some j \<longrightarrow> ?R i j) ?ps"
  proof (rule sorted_wrt_mono_rel [rotated])
    fix p q
    assume p: "p \<in> set ?ps" and q: "q \<in> set ?ps" and le: "snd q \<le> snd p"
    show "\<forall>i j. issue_map cands (fst p) = Some i \<and> issue_map cands (fst q) = Some j \<longrightarrow> ?R i j"
    proof (intro allI impI, elim conjE)
      fix i j
      assume mi: "issue_map cands (fst p) = Some i" and mj: "issue_map cands (fst q) = Some j"
      from p have "(fst p, snd p) \<in> set ?rel" by simp
      from relevant_score [OF s assms(1) this mi] have "similarity_to qv i = Some (snd p)" by simp
      moreover from q have "(fst q, snd q) \<in> set ?rel" by simp
      from relevant_score [OF s assms(1) this mj] have "similarity_to qv j = Some (snd q)" by simp
      ultimately show "?R i j" using le by simp
    qed
  qed
  then have "sorted_wrt (\<lambda>a b. \<forall>i j. issue_map cands a = Some i \<and>
                 issue_map cands b = Some j \<longrightarrow> ?R i j) (sorted_ids ?rel)"
    by (simp add: sorted_ids_def sorted_wrt_map)
  then have sorted: "sorted_wrt ?R ranked"
    unfolding r by (rule sorted_wrt_map_filter)
  have "set ranked = {i \<in> set cands. \<exists>x. similarity_to qv i = Some x \<and> threshold < x}"
  proof (intro set_eqI iffI)
    fix i assume "i \<in> set ranked"
    with r obtain sid where "sid \<in> set (sorted_ids ?rel)" and m: "issue_map cands sid = Some i"
      by (auto simp: set_map_filter)
    then obtain x where "(sid, x) \<in> set ?rel" by (auto simp: set_sorted_ids)
    from relevant_score [OF s assms(1) this m] issue_map_SomeD [OF m]
    show "i \<in> {i \<in> set cands. \<exists>x. similarity_to qv i = Some x \<and> threshold < x}" by simp
  next
    fix i assume "i \<in> {i \<in> set cands. \<exists>x. similarity_to qv i = Some x \<and> threshold < x}"
    then obtain x where i: "i \<in> set cands" and x: "similarity_to qv i = Some x" "threshold < x"
      by auto
    from similarity_to_nonempty [OF x(1)] obtain v where v: "embedding i = Some v" "v \<noteq> []"
      "cosine_similarity qv v = Inr (Num x)" by auto
    from s have s': "similarities_from qv cands [] = Inr sims" by (simp add: similarities_def)
    from similarities_from_holds [OF s' assms(1) i v(1,2)] v(3)
    have "map_of sims (issue_id i) = Some (Num x)" by simp
    then have "(issue_id i, Num x) \<in> set sims" by (rule map_of_SomeD)
    with x(2) have "(issue_id i, x) \<in> set ?rel" by (simp add: relevant_ids_iff)
    then have "issue_id i \<in> set (sorted_ids ?rel)" by (force simp: set_sorted_ids)
    moreover have "issue_map cands (issue_id i) = Some i"
      using assms(1) i by (rule issue_map_distinct)
    ultimately show "i \<in> set ranked" unfolding r by (auto simp: set_map_filter)
  qed
  with sorted show ?thesis by simp
qed

theorem ranked_sorted_descending_witness:
  "distinct (map issue_id [issue_c, issue_b, issue_d, issue_z, issue_a]) \<and>
   rank_issues [1, 0] [issue_c, issue_b, issue_d, issue_z, issue_a] = Inr [issue_a, issue_b] \<and>
   sorted_wrt (\<lambda>a b. \<exists>x y. similarity_to [1, 0] a = Some x \<and>
                 similarity_to [1, 0] b = Some y \<and> y \<le> x) [issue_a, issue_b]"
proof -
  have d: "distinct (map issue_id [issue_c, issue_b, issue_d, issue_z, issue_a])"
    by (simp add: example_ids)
  from ranked_sorted_descending [OF d example_ranking] d example_ranking
  show ?thesis by simp
qed

subsection \<open>When the ranking returns, and Version 1\<close>

text \<open>
  The block raises only on an embedding whose length differs from the query's; Version 1,
  which indexes the issue map without the membership test, computes the same result.
\<close>

lemma similarities_from_returns:
  "(\<forall>i\<in>set cands. \<forall>v. embedding i = Some v \<and> v \<noteq> [] \<longrightarrow> length v = length qv) \<Longrightarrow>
   \<exists>sims. similarities_from qv cands acc = Inr sims"
proof (induction cands arbitrary: acc)
  case Nil
  then show ?case by simp
next
  case (Cons i rest)
  then show ?case
    by (cases "embedding i") (auto simp: cosine_similarity_def np_dot_def)
qed

lemma rank_issues_returns:
  "(\<forall>i\<in>set cands. \<forall>v. embedding i = Some v \<and> v \<noteq> [] \<longrightarrow> length v = length qv) \<Longrightarrow>
   \<exists>ranked. rank_issues qv cands = Inr ranked"
  using similarities_from_returns [of cands qv "[]"]
  by (auto simp: rank_issues_def similarities_def)

lemma index_all_total:
  "\<forall>sid\<in>set ids. m sid \<noteq> None \<Longrightarrow> index_all m ids = Inr (List.map_filter m ids)"
  by (induction ids) (auto simp: List.map_filter_simps)

lemma rank_issues_v1_eq: "rank_issues_v1 qv cands = rank_issues qv cands"
proof (cases "similarities qv cands")
  case (Inl e)
  then show ?thesis by (simp add: rank_issues_v1_def rank_issues_def)
next
  case (Inr sims)
  have "\<forall>sid\<in>set (sorted_ids (relevant_ids sims)). issue_map cands sid \<noteq> None"
  proof
    fix sid assume "sid \<in> set (sorted_ids (relevant_ids sims))"
    then obtain x where "(sid, Num x) \<in> set sims"
      by (auto simp: set_sorted_ids relevant_ids_iff)
    then obtain sc where "map_of sims sid = Some sc"
      by (auto dest: weak_map_of_SomeI)
    with Inr obtain i where "i \<in> set cands" "issue_id i = sid"
      unfolding similarities_def by (auto dest!: similarities_from_origin)
    then have "sid \<in> fst ` set (rev (map (\<lambda>i. (issue_id i, i)) cands))" by force
    then show "issue_map cands sid \<noteq> None"
      unfolding issue_map_def by (simp only: map_of_eq_None_iff not_not)
  qed
  with Inr show ?thesis
    by (simp add: rank_issues_v1_def rank_issues_def index_all_total)
qed

section \<open>The upvote toggle\<close>

subsection \<open>The two branches\<close>

lemma upvote_row_eq_iff:
  "(v :: upvote_row) = \<lparr>voter_id = u, upvote_issue_id = k\<rparr> \<longleftrightarrow> voter_id v = u \<and> upvote_issue_id v = k"
  by (cases v) simp

lemma find_set_upvote_count:
  "find (\<lambda>i. issue_id i = k) (set_upvote_count k n rows) =
   map_option (\<lambda>i. i\<lparr>upvote_count := Some n\<rparr>) (find (\<lambda>i. issue_id i = k) rows)"
  by (induction rows) (auto simp: set_upvote_count_def)

lemma find_set_reputation_points:
  "find (\<lambda>u. user_id u = k) (set_reputation_points k n rows) =
   map_option (\<lambda>u. u\<lparr>reputation_points := Some n\<rparr>) (find (\<lambda>u. user_id u = k) rows)"
  by (induction rows) (auto simp: set_reputation_points_def)

lemma upvote_vote:
  assumes "get_issue s iid = Some i" and "get_user s (reporter_id i) = Some r"
    and "find (\<lambda>v. voter_id v = u \<and> upvote_issue_id v = iid) (upvotes s) = None"
  shows "upvote s u iid =
    Inr (s\<lparr>upvotes := upvotes s @ [\<lparr>voter_id = u, upvote_issue_id = iid\<rparr>],
           issues := set_upvote_count iid (or0 (upvote_count i) + 1) (issues s),
           users := set_reputation_points (reporter_id i) (or0 (reputation_points r) + 2) (users s)\<rparr>,
         200,
         JObject [(''success'', JBool True), (''upvote_count'', JInt (or0 (upvote_count i) + 1)),
                  (''voted'', JBool True)])"
  using assms by (simp add: upvote_def Let_def)

lemma upvote_unvote:
  assumes "get_issue s iid = Some i" and "get_user s (reporter_id i) = Some r"
    and "find (\<lambda>v. voter_id v = u \<and> upvote_issue_id v = iid) (upvotes s) = Some ex"
  shows "upvote s u iid =
    Inr (s\<lparr>upvotes := remove1 ex (upvotes s),
           issues := set_upvote_count iid (or0 (upvote_count i) - 1) (issues s),
           users := set_reputation_points (reporter_id i) (or0 (reputation_points r) - 2) (users s)\<rparr>,
         200,
         JObject [(''success'', JBool True), (''upvote_count'', JInt (or0 (upvote_count i) - 1)),
                  (''voted'', JBool False)])"
  using assms by (simp add: upvote_def Let_def)

lemma find_after_vote:
  assumes "find (\<lambda>v. voter_id v = u \<and> upvote_issue_id v = iid) rows = None"
  shows "find (\<lambda>v. voter_id v = u \<and> upvote_issue_id v = iid)
           (rows @ [\<lparr>voter_id = u, upvote_issue_id = iid\<rparr>]) =
         Some \<lparr>voter_id = u, upvote_issue_id = iid\<rparr>"
  using assms by (induction rows) (auto split: if_splits)

lemma remove1_after_vote:
  assumes "find (\<lambda>v. voter_id v = u \<and> upvote_issue_id v = iid) (rows :: upvote_row list) = None"
  shows "remove1 \<lparr>voter_id = u, upvote_issue_id = iid\<rparr>
           (rows @ [\<lparr>voter_id = u, upvote_issue_id = iid\<rparr>]) = rows"
proof -
  let ?new = "\<lparr>voter_id = u, upvote_issue_id = iid\<rparr>"
  have "?new \<notin> set rows"
  proof
    assume "?new \<in> set rows"
    then have "\<exists>x. x \<in> set rows \<and> voter_id x = u \<and> upvote_issue_id x = iid"
      by (intro exI [of _ ?new]) simp
    with assms show False by (simp add: find_None_iff)
  qed
  then show ?thesis by (simp add: remove1_append)
qed

lemma find_after_unvote:
  assumes "distinct (rows :: upvote_row list)"
    and "find (\<lambda>v. voter_id v = u \<and> upvote_issue_id v = iid) rows = Some ex"
  shows "find (\<lambda>v. voter_id v = u \<and> upvote_issue_id v = iid) (remove1 ex rows) = None"
proof -
  from assms(2) have ex: "ex = \<lparr>voter_id = u, upvote_issue_id = iid\<rparr>"
    by (auto simp: find_Some_iff upvote_row_eq_iff)
  from assms(1) have notin: "ex \<notin> set (remove1 ex rows)" by simp
  have "\<not> (\<exists>x. x \<in> set (remove1 ex rows) \<and> voter_id x = u \<and> upvote_issue_id x = iid)"
  proof
    assume "\<exists>x. x \<in> set (remove1 ex rows) \<and> voter_id x = u \<and> upvote_issue_id x = iid"
    then obtain x where x: "x \<in> set (remove1 ex rows)" "voter_id x = u" "upvote_issue_id x = iid"
      by blast
    from x(2,3) have "x = \<lparr>voter_id = u, upvote_issue_id = iid\<rparr>"
      by (simp add: upvote_row_eq_iff)
    with ex x(1) notin show False by simp
  qed
  then show ?thesis by (simp add: find_None_iff)
qed

lemma example_store_lookups:
  "get_issue store_0 1 = Some issue_a" "get_issue store_0 3 = Some issue_c"
  "get_user store_0 1 = Some reporter_1" "get_user store_0 2 = Some moderator_2"
  "get_user store_0 3 = Some newcomer_3"
  "reporter_id issue_a = 1" "reporter_id issue_c = 3"
  by (simp_all add: get_issue_def get_user_def store_0_def issue_a_def issue_b_def issue_c_def
      reporter_1_def moderator_2_def newcomer_3_def)

subsection \<open>Toggling twice\<close>

text \<open>Two requests in a row.\<close>

lemma upvote_twice_step:
  assumes "get_issue s iid = Some i"
    and "get_user s (reporter_id i) = Some r"
    and "one_vote_each s"
  shows "\<exists>s1 c1 b1 i1 r1 s2 c2 b2 i2 r2.
           upvote s u iid = Inr (s1, c1, b1) \<and>
           get_issue s1 iid = Some i1 \<and> get_user s1 (reporter_id i) = Some r1 \<and>
           (if find (\<lambda>v. voter_id v = u \<and> upvote_issue_id v = iid) (upvotes s) = None
            then upvote_count i1 = Some (or0 (upvote_count i) + 1) \<and>
                 reputation_points r1 = Some (or0 (reputation_points r) + 2)
            else upvote_count i1 = Some (or0 (upvote_count i) - 1) \<and>
                 reputation_points r1 = Some (or0 (reputation_points r) - 2)) \<and>
           upvote s1 u iid = Inr (s2, c2, b2) \<and>
           get_issue s2 iid = Some i2 \<and> get_user s2 (reporter_id i) = Some r2 \<and>
           upvote_count i2 = Some (or0 (upvote_count i)) \<and>
           reputation_points r2 = Some (or0 (reputation_points r))"
proof -
  let ?mine = "\<lambda>v. voter_id v = u \<and> upvote_issue_id v = iid"
  let ?c = "or0 (upvote_count i)" and ?p = "or0 (reputation_points r)"
  define d :: int where "d = (if find ?mine (upvotes s) = None then 1 else - 1)"
  define rows1 where "rows1 =
    (case find ?mine (upvotes s) of
       None \<Rightarrow> upvotes s @ [\<lparr>voter_id = u, upvote_issue_id = iid\<rparr>]
     | Some ex \<Rightarrow> remove1 ex (upvotes s))"
  define s1 where "s1 = s\<lparr>upvotes := rows1,
      issues := set_upvote_count iid (?c + d) (issues s),
      users := set_reputation_points (reporter_id i) (?p + 2 * d) (users s)\<rparr>"
  define i1 where "i1 = i\<lparr>upvote_count := Some (?c + d)\<rparr>"
  define r1 where "r1 = r\<lparr>reputation_points := Some (?p + 2 * d)\<rparr>"
  have first: "\<exists>c1 b1. upvote s u iid = Inr (s1, c1, b1)"
    using assms(1,2)
    by (cases "find ?mine (upvotes s)")
       (simp_all add: upvote_vote upvote_unvote s1_def rows1_def d_def)
  have gi1: "get_issue s1 iid = Some i1"
    using assms(1) by (simp add: get_issue_def find_set_upvote_count s1_def i1_def)
  have gr1: "get_user s1 (reporter_id i1) = Some r1"
    using assms(2) by (simp add: get_user_def find_set_reputation_points s1_def i1_def r1_def)
  have after1: "if find ?mine (upvotes s) = None
      then upvote_count i1 = Some (?c + 1) \<and> reputation_points r1 = Some (?p + 2)
      else upvote_count i1 = Some (?c - 1) \<and> reputation_points r1 = Some (?p - 2)"
    by (simp add: i1_def r1_def d_def)
  define rows2 where "rows2 =
    (case find ?mine (upvotes s) of
       None \<Rightarrow> upvotes s
     | Some ex \<Rightarrow> remove1 ex (upvotes s) @ [\<lparr>voter_id = u, upvote_issue_id = iid\<rparr>])"
  define s2 where "s2 = s1\<lparr>upvotes := rows2,
      issues := set_upvote_count iid ?c (issues s1),
      users := set_reputation_points (reporter_id i) ?p (users s1)\<rparr>"
  have second: "\<exists>c2 b2. upvote s1 u iid = Inr (s2, c2, b2)"
  proof (cases "find ?mine (upvotes s)")
    case None
    then have f1: "find ?mine (upvotes s1) = Some \<lparr>voter_id = u, upvote_issue_id = iid\<rparr>"
      by (simp add: s1_def rows1_def find_after_vote)
    have "remove1 \<lparr>voter_id = u, upvote_issue_id = iid\<rparr> (upvotes s1) = upvotes s"
      using None by (simp add: s1_def rows1_def remove1_after_vote)
    with upvote_unvote [OF gi1 gr1 f1] None show ?thesis
      by (simp add: s2_def rows2_def i1_def r1_def d_def)
  next
    case (Some ex)
    from assms(3) have "distinct (upvotes s)" by (simp add: one_vote_each_def)
    from find_after_unvote [OF this Some] Some
    have f1: "find ?mine (upvotes s1) = None"
      by (simp add: s1_def rows1_def)
    from upvote_vote [OF gi1 gr1 f1] Some show ?thesis
      by (simp add: s2_def rows2_def i1_def r1_def d_def s1_def rows1_def)
  qed
  define i2 where "i2 = i1\<lparr>upvote_count := Some ?c\<rparr>"
  define r2 where "r2 = r1\<lparr>reputation_points := Some ?p\<rparr>"
  have gi2: "get_issue s2 iid = Some i2"
    using gi1 by (simp add: get_issue_def find_set_upvote_count s2_def i2_def)
  have gr2: "get_user s2 (reporter_id i) = Some r2"
    using gr1 by (simp add: get_user_def find_set_reputation_points s2_def r2_def i1_def)
  have gr1': "get_user s1 (reporter_id i) = Some r1"
    using gr1 by (simp add: i1_def)
  have final: "upvote_count i2 = Some ?c \<and> reputation_points r2 = Some ?p"
    by (simp add: i2_def r2_def)
  from first second gi1 gr1' after1 gi2 gr2 final show ?thesis by blast
qed

text \<open>
  C4. For every user and every stored issue (whose reporter is a stored user, in a store
  where no user holds two upvotes on one issue, as in every store the routes build one
  request after the other), two successive \<^verbatim>\<open>upvote\<close> requests by the same user both
  succeed and leave the issue's \<^verbatim>\<open>upvote_count\<close> and the reporter's
  \<^verbatim>\<open>reputation_points\<close> at their values before the first request (NULL read as 0):
  the first request moves the count by 1 and the reputation by 2, up when the user had not
  voted and down when the user had, and the second request moves them back.
\<close>

theorem upvote_twice_restores:
  assumes "get_issue s iid = Some i"
    and "get_user s (reporter_id i) = Some r"
    and "one_vote_each s"
  shows "\<exists>s1 c1 b1 i1 r1 s2 c2 b2 i2 r2.
           upvote s u iid = Inr (s1, c1, b1) \<and>
           get_issue s1 iid = Some i1 \<and> get_user s1 (reporter_id i) = Some r1 \<and>
           (if find (\<lambda>v. voter_id v = u \<and> upvote_issue_id v = iid) (upvotes s) = None
            then upvote_count i1 = Some (or0 (upvote_count i) + 1) \<and>
                 reputation_points r1 = Some (or0 (reputation_points r) + 2)
            else upvote_count i1 = Some (or0 (upvote_count i) - 1) \<and>
                 reputation_points r1 = Some (or0 (reputation_points r) - 2)) \<and>
           upvote s1 u iid = Inr (s2, c2, b2) \<and>
           get_issue s2 iid = Some i2 \<and> get_user s2 (reporter_id i) = Some r2 \<and>
           upvote_count i2 = Some (or0 (upvote_count i)) \<and>
           reputation_points r2 = Some (or0 (reputation_points r))"
  using assms by (rule upvote_twice_step)

theorem upvote_twice_restores_witness:
  "get_issue store_0 3 = Some issue_c \<and>
   get_user store_0 (reporter_id issue_c) = Some newcomer_3 \<and>
   one_vote_each store_0 \<and>
   (\<exists>s1 c1 b1 s2 c2 b2 i2 r2.
      upvote store_0 2 3 = Inr (s1, c1, b1) \<and> upvote s1 2 3 = Inr (s2, c2, b2) \<and>
      get_issue s2 3 = Some i2 \<and> upvote_count i2 = Some 0 \<and>
      get_user s2 3 = Some r2 \<and> reputation_points r2 = Some 0)"
proof -
  have h1: "get_issue store_0 3 = Some issue_c" by (rule example_store_lookups)
  have h2: "get_user store_0 (reporter_id issue_c) = Some newcomer_3"
    by (simp add: example_store_lookups)
  have h3: "one_vote_each store_0" by (simp add: one_vote_each_def store_0_def)
  have v: "or0 (upvote_count issue_c) = 0" "or0 (reputation_points newcomer_3) = 0"
    "reporter_id issue_c = 3"
    by (simp_all add: issue_c_def newcomer_3_def)
  from upvote_twice_restores [OF h1 h2 h3, of 2] obtain s1 c1 b1 s2 c2 b2 i2 r2 where
    "upvote store_0 2 3 = Inr (s1, c1, b1)" "upvote s1 2 3 = Inr (s2, c2, b2)"
    "get_issue s2 3 = Some i2" "upvote_count i2 = Some 0"
    "get_user s2 3 = Some r2" "reputation_points r2 = Some 0"
    unfolding v by blast
  with h1 h2 h3 show ?thesis by blast
qed

subsection \<open>Count and rows\<close>

lemma records_after_vote:
  "length (filter (\<lambda>v. upvote_issue_id v = k) (rows @ [\<lparr>voter_id = u, upvote_issue_id = iid\<rparr>])) =
   length (filter (\<lambda>v. upvote_issue_id v = k) rows) + (if k = iid then 1 else 0)"
  by simp

lemma records_after_unvote:
  assumes "ex \<in> set rows" and "upvote_issue_id ex = iid"
  shows "length (filter (\<lambda>v. upvote_issue_id v = k) (remove1 ex rows)) + (if k = iid then 1 else 0) =
         length (filter (\<lambda>v. upvote_issue_id v = k) rows)"
proof (cases "k = iid")
  case True
  with assms have m: "ex \<in> set (filter (\<lambda>v. upvote_issue_id v = k) rows)" by simp
  then have "length (filter (\<lambda>v. upvote_issue_id v = k) rows) > 0"
    by (metis length_pos_if_in_set)
  with m True show ?thesis
    by (simp add: filter_remove1 length_remove1 del: set_filter)
next
  case False
  with assms have "ex \<notin> set (filter (\<lambda>v. upvote_issue_id v = k) rows)" by simp
  with False show ?thesis
    by (simp add: filter_remove1 remove1_idem del: set_filter)
qed

lemma set_upvote_count_member:
  "j' \<in> set (set_upvote_count k n rows) \<Longrightarrow>
   \<exists>j\<in>set rows. issue_id j' = issue_id j \<and>
     (if issue_id j = k then upvote_count j' = Some n else j' = j)"
  by (auto simp: set_upvote_count_def)

lemma get_issue_member: "get_issue s k = Some i \<Longrightarrow> i \<in> set (issues s) \<and> issue_id i = k"
  by (auto simp: get_issue_def find_Some_iff)

text \<open>One request: the count and the rows move together.\<close>

lemma upvote_count_step:
  assumes "vote_consistent s" and "upvote s u iid = Inr (s', code, body)"
  shows "vote_consistent s' \<and>
         (case get_issue s iid of
            None \<Rightarrow> s' = s
          | Some i \<Rightarrow>
              (\<exists>i'. get_issue s' iid = Some i' \<and>
                 upvote_count i' = Some (int (upvote_records s' iid)) \<and>
                 (upvote_count i' = Some (or0 (upvote_count i) + 1) \<and>
                    upvote_records s' iid = upvote_records s iid + 1 \<or>
                  upvote_count i' = Some (or0 (upvote_count i) - 1) \<and>
                    upvote_records s' iid + 1 = upvote_records s iid)))"
proof (cases "get_issue s iid")
  case None
  with assms show ?thesis by (simp add: upvote_def)
next
  case (Some i)
  with assms(2) obtain r where r: "get_user s (reporter_id i) = Some r"
    by (auto simp: upvote_def split: option.splits)
  let ?mine = "\<lambda>v. voter_id v = u \<and> upvote_issue_id v = iid"
  from Some have i: "i \<in> set (issues s)" "issue_id i = iid" by (auto dest: get_issue_member)
  with assms(1) have ci: "or0 (upvote_count i) = int (upvote_records s iid)"
    by (auto simp: vote_consistent_def list_all_iff)
  show ?thesis
  proof (cases "find ?mine (upvotes s)")
    case None
    let ?n = "or0 (upvote_count i) + 1"
    from upvote_vote [OF Some r None] assms(2)
    have s': "upvotes s' = upvotes s @ [\<lparr>voter_id = u, upvote_issue_id = iid\<rparr>]"
      "issues s' = set_upvote_count iid ?n (issues s)"
      by auto
    have rec: "\<And>k. upvote_records s' k = upvote_records s k + (if k = iid then 1 else 0)"
      by (simp add: upvote_records_def s')
    have "vote_consistent s'"
      unfolding vote_consistent_def list_all_iff
    proof
      fix j' assume "j' \<in> set (issues s')"
      then obtain j where j: "j \<in> set (issues s)" "issue_id j' = issue_id j"
        "if issue_id j = iid then upvote_count j' = Some ?n else j' = j"
        unfolding s' by (blast dest: set_upvote_count_member)
      from assms(1) j(1) have "or0 (upvote_count j) = int (upvote_records s (issue_id j))"
        by (auto simp: vote_consistent_def list_all_iff)
      with j ci show "or0 (upvote_count j') = int (upvote_records s' (issue_id j'))"
        by (auto simp: rec split: if_splits)
    qed
    moreover have "get_issue s' iid = Some (i\<lparr>upvote_count := Some ?n\<rparr>)"
      using Some by (simp add: get_issue_def s' find_set_upvote_count)
    ultimately show ?thesis using Some ci rec [of iid] by simp
  next
    case (Some ex)
    let ?n = "or0 (upvote_count i) - 1"
    from Some have ex: "ex \<in> set (upvotes s)" "upvote_issue_id ex = iid"
      by (auto simp: find_Some_iff)
    from upvote_unvote [OF \<open>get_issue s iid = Some i\<close> r Some] assms(2)
    have s': "upvotes s' = remove1 ex (upvotes s)"
      "issues s' = set_upvote_count iid ?n (issues s)"
      by auto
    have rec: "\<And>k. upvote_records s' k + (if k = iid then 1 else 0) = upvote_records s k"
      unfolding upvote_records_def s' using ex by (rule records_after_unvote)
    have "vote_consistent s'"
      unfolding vote_consistent_def list_all_iff
    proof
      fix j' assume "j' \<in> set (issues s')"
      then obtain j where j: "j \<in> set (issues s)" "issue_id j' = issue_id j"
        "if issue_id j = iid then upvote_count j' = Some ?n else j' = j"
        unfolding s' by (blast dest: set_upvote_count_member)
      from assms(1) j(1) have "or0 (upvote_count j) = int (upvote_records s (issue_id j))"
        by (auto simp: vote_consistent_def list_all_iff)
      with j ci rec [of "issue_id j"]
      show "or0 (upvote_count j') = int (upvote_records s' (issue_id j'))"
        by (auto split: if_splits)
    qed
    moreover have "get_issue s' iid = Some (i\<lparr>upvote_count := Some ?n\<rparr>)"
      using \<open>get_issue s iid = Some i\<close> by (simp add: get_issue_def s' find_set_upvote_count)
    ultimately show ?thesis using \<open>get_issue s iid = Some i\<close> ci rec [of iid] by auto
  qed
qed

text \<open>
  C10. If every issue's \<^verbatim>\<open>upvote_count\<close> (NULL read as 0) equals the number of
  \<^verbatim>\<open>Upvote\<close> rows stored for it, the same holds after any \<^verbatim>\<open>upvote\<close> request that
  completes; the toggled issue's count is then set and equals the number of its rows. The
  request adds a row exactly when it raises the count by 1 and deletes one exactly when it
  lowers the count by 1; a request for a missing issue changes nothing.
\<close>

theorem upvote_keeps_count_consistent:
  assumes "vote_consistent s" and "upvote s u iid = Inr (s', code, body)"
  shows "vote_consistent s' \<and>
         (case get_issue s iid of
            None \<Rightarrow> s' = s
          | Some i \<Rightarrow>
              (\<exists>i'. get_issue s' iid = Some i' \<and>
                 upvote_count i' = Some (int (upvote_records s' iid)) \<and>
                 (upvote_count i' = Some (or0 (upvote_count i) + 1) \<and>
                    upvote_records s' iid = upvote_records s iid + 1 \<or>
                  upvote_count i' = Some (or0 (upvote_count i) - 1) \<and>
                    upvote_records s' iid + 1 = upvote_records s iid)))"
  using assms by (rule upvote_count_step)

lemma example_store_consistent: "vote_consistent store_0"
  by (simp add: vote_consistent_def upvote_records_def store_0_def issue_a_def issue_b_def
      issue_c_def)

theorem upvote_keeps_count_consistent_witness:
  "vote_consistent store_0 \<and>
   (\<exists>s' body. upvote store_0 2 1 = Inr (s', 200, body) \<and> vote_consistent s' \<and>
      upvote_records s' 1 = 1)"
proof -
  have f: "find (\<lambda>v. voter_id v = 2 \<and> upvote_issue_id v = 1) (upvotes store_0) = None"
    by (simp add: store_0_def)
  have r: "get_user store_0 (reporter_id issue_a) = Some reporter_1"
    by (simp add: example_store_lookups)
  define s' where "s' = store_0\<lparr>upvotes := upvotes store_0 @ [\<lparr>voter_id = 2, upvote_issue_id = 1\<rparr>],
      issues := set_upvote_count 1 (or0 (upvote_count issue_a) + 1) (issues store_0),
      users := set_reputation_points (reporter_id issue_a)
                 (or0 (reputation_points reporter_1) + 2) (users store_0)\<rparr>"
  from upvote_vote [OF example_store_lookups(1) r f]
  obtain body where u: "upvote store_0 2 1 = Inr (s', 200, body)"
    unfolding s'_def by blast
  from upvote_keeps_count_consistent [OF example_store_consistent u]
  have c: "vote_consistent s'" by simp
  have n: "upvote_records s' 1 = 1"
    by (simp add: s'_def upvote_records_def store_0_def)
  from u c n example_store_consistent show ?thesis by blast
qed

section \<open>Every store the routes build is well formed\<close>

text \<open>
  The hypotheses used above hold of every store built from one without issues and upvotes
  by \<^verbatim>\<open>report_issue\<close>, \<^verbatim>\<open>upvote\<close> and \<^verbatim>\<open>update_status\<close> requests (of
  either version) handled one after the other: no user holds two upvotes on an issue, every reporter is stored,
  counts agree with rows, no issue carries an embedding, upvotes point to stored issues
  and primary keys are distinct.
\<close>

lemma ids_set_upvote_count [simp]:
  "map issue_id (set_upvote_count k n rows) = map issue_id rows"
  "map reporter_id (set_upvote_count k n rows) = map reporter_id rows"
  "map embedding (set_upvote_count k n rows) = map embedding rows"
  by (simp_all add: set_upvote_count_def)

lemma ids_set_status [simp]:
  "map issue_id (set_status k st rows) = map issue_id rows"
  "map reporter_id (set_status k st rows) = map reporter_id rows"
  "map embedding (set_status k st rows) = map embedding rows"
  "map upvote_count (set_status k st rows) = map upvote_count rows"
  by (simp_all add: set_status_def)

lemma ids_set_reputation_points [simp]:
  "map user_id (set_reputation_points k n rows) = map user_id rows"
  by (simp add: set_reputation_points_def)

lemma get_user_iff: "get_user s k \<noteq> None \<longleftrightarrow> k \<in> user_id ` set (users s)"
  by (auto simp: get_user_def find_None_iff)

lemma reporters_exist_iff:
  "reporters_exist s \<longleftrightarrow> set (map reporter_id (issues s)) \<subseteq> set (map user_id (users s))"
  unfolding reporters_exist_def list_all_iff get_user_iff by auto

lemma embeddings_unset_iff: "embeddings_unset s \<longleftrightarrow> set (map embedding (issues s)) \<subseteq> {None}"
  by (auto simp: embeddings_unset_def list_all_iff)

lemma upvotes_refer_iff:
  "upvotes_refer s \<longleftrightarrow> upvote_issue_id ` set (upvotes s) \<subseteq> set (map issue_id (issues s))"
  unfolding upvotes_refer_def list_all_iff list_ex_iff by force

lemma list_all_two_fields:
  "list_all (\<lambda>i. Q (f i) (g i)) xs = list_all (\<lambda>(a, b). Q a b) (zip (map f xs) (map g xs))"
  by (induction xs) auto

lemma vote_consistent_iff:
  "vote_consistent s \<longleftrightarrow>
   list_all (\<lambda>(k, c). or0 c = int (length (filter (\<lambda>v. upvote_issue_id v = k) (upvotes s))))
     (zip (map issue_id (issues s)) (map upvote_count (issues s)))"
  unfolding vote_consistent_def upvote_records_def
  by (rule list_all_two_fields [of "\<lambda>k c. or0 c = int (length (filter (\<lambda>v. upvote_issue_id v = k) (upvotes s)))"])

lemma fresh_issue_id_above: "i \<in> set (issues s) \<Longrightarrow> issue_id i < fresh_issue_id s"
proof -
  have "\<And>a. \<forall>x\<in>set xs. x \<le> fold max xs a" for xs :: "int list"
  proof (induction xs)
    case Nil
    show ?case by simp
  next
    case (Cons y ys)
    have "\<And>b. b \<le> fold max ys b" for ys :: "int list"
      by (induction ys) (auto intro: order_trans [OF max.cobounded2])
    then have "y \<le> fold max ys (max y a)"
      by (meson max.cobounded1 order_trans)
    with Cons show ?case by simp
  qed
  then have "\<forall>x\<in>set (map issue_id (issues s)). x \<le> fold max (map issue_id (issues s)) 0" .
  moreover assume "i \<in> set (issues s)"
  ultimately show ?thesis by (simp add: fresh_issue_id_def)
qed

lemma store_inv_cong:
  assumes "upvotes s' = upvotes s"
    and "map issue_id (issues s') = map issue_id (issues s)"
    and "map reporter_id (issues s') = map reporter_id (issues s)"
    and "map embedding (issues s') = map embedding (issues s)"
    and "map upvote_count (issues s') = map upvote_count (issues s)"
    and "map user_id (users s') = map user_id (users s)"
  shows "store_inv s' = store_inv s"
  using assms
  by (simp add: store_inv_def one_vote_each_def reporters_exist_iff vote_consistent_iff
      embeddings_unset_iff upvotes_refer_iff)

text \<open>A request of Version 2 that completes has changed nothing.\<close>

lemma update_status_never_stores:
  "update_status s cu iid st = Inr (s', rd) \<Longrightarrow> s' = s"
  by (auto simp: update_status_def select_upvoters_joinedload_def
      split: option.splits if_splits sum.splits)

lemma update_status_shape:
  assumes "update_status s cu iid st = Inr (s', rd)"
  shows "s' = s \<or>
         (upvotes s' = upvotes s \<and>
          (\<exists>st'. issues s' = set_status iid st' (issues s)) \<and>
          map user_id (users s') = map user_id (users s))"
  using assms
  by (auto simp: update_status_def select_upvoters_joinedload_def
      split: option.splits if_splits sum.splits)

lemma update_status_v1_shape:
  assumes "update_status_v1 s cu iid st = Inr (s', rd)"
  shows "s' = s \<or>
         (upvotes s' = upvotes s \<and>
          (\<exists>st'. issues s' = set_status iid st' (issues s)) \<and>
          map user_id (users s') = map user_id (users s))"
  using assms
  by (auto simp: update_status_v1_def split: option.splits if_splits)

lemma update_status_store_inv:
  assumes "store_inv s" and "update_status s cu iid st = Inr (s', rd)"
  shows "store_inv s'"
proof -
  from update_status_shape [OF assms(2)] show ?thesis
  proof
    assume "s' = s"
    with assms(1) show ?thesis by simp
  next
    assume "upvotes s' = upvotes s \<and>
          (\<exists>st'. issues s' = set_status iid st' (issues s)) \<and>
          map user_id (users s') = map user_id (users s)"
    then have "store_inv s' = store_inv s"
      by (intro store_inv_cong) auto
    with assms(1) show ?thesis by simp
  qed
qed

lemma update_status_v1_store_inv:
  assumes "store_inv s" and "update_status_v1 s cu iid st = Inr (s', rd)"
  shows "store_inv s'"
proof -
  from update_status_v1_shape [OF assms(2)] show ?thesis
  proof
    assume "s' = s"
    with assms(1) show ?thesis by simp
  next
    assume "upvotes s' = upvotes s \<and>
          (\<exists>st'. issues s' = set_status iid st' (issues s)) \<and>
          map user_id (users s') = map user_id (users s)"
    then have "store_inv s' = store_inv s"
      by (intro store_inv_cong) auto
    with assms(1) show ?thesis by simp
  qed
qed

lemma find_None_notin:
  assumes "find (\<lambda>v. voter_id v = u \<and> upvote_issue_id v = iid) (rows :: upvote_row list) = None"
  shows "\<lparr>voter_id = u, upvote_issue_id = iid\<rparr> \<notin> set rows"
proof
  assume "\<lparr>voter_id = u, upvote_issue_id = iid\<rparr> \<in> set rows"
  then have "\<exists>x. x \<in> set rows \<and> voter_id x = u \<and> upvote_issue_id x = iid"
    by (intro exI [of _ "\<lparr>voter_id = u, upvote_issue_id = iid\<rparr>"]) simp
  with assms show False by (simp add: find_None_iff)
qed

lemma upvote_shape:
  assumes "upvote s u iid = Inr (s', code, body)"
  shows "s' = s \<or>
         (\<exists>i n. get_issue s iid = Some i \<and>
            issues s' = set_upvote_count iid n (issues s) \<and>
            map user_id (users s') = map user_id (users s) \<and>
            (find (\<lambda>v. voter_id v = u \<and> upvote_issue_id v = iid) (upvotes s) = None \<and>
               upvotes s' = upvotes s @ [\<lparr>voter_id = u, upvote_issue_id = iid\<rparr>] \<or>
             (\<exists>ex. find (\<lambda>v. voter_id v = u \<and> upvote_issue_id v = iid) (upvotes s) = Some ex \<and>
               upvotes s' = remove1 ex (upvotes s))))"
  using assms
  by (auto simp: upvote_def Let_def split: option.splits)

lemma upvote_store_inv:
  assumes "store_inv s" and "upvote s u iid = Inr (s', code, body)"
  shows "store_inv s'"
proof -
  from assms(1) have vc: "vote_consistent s" by (simp add: store_inv_def)
  from upvote_count_step [OF vc assms(2)] have vc': "vote_consistent s'" by simp
  from upvote_shape [OF assms(2)] show ?thesis
  proof
    assume "s' = s"
    with assms(1) show ?thesis by simp
  next
    assume "\<exists>i n. get_issue s iid = Some i \<and>
            issues s' = set_upvote_count iid n (issues s) \<and>
            map user_id (users s') = map user_id (users s) \<and>
            (find (\<lambda>v. voter_id v = u \<and> upvote_issue_id v = iid) (upvotes s) = None \<and>
               upvotes s' = upvotes s @ [\<lparr>voter_id = u, upvote_issue_id = iid\<rparr>] \<or>
             (\<exists>ex. find (\<lambda>v. voter_id v = u \<and> upvote_issue_id v = iid) (upvotes s) = Some ex \<and>
               upvotes s' = remove1 ex (upvotes s)))"
    then obtain i n where i: "get_issue s iid = Some i"
      and is': "issues s' = set_upvote_count iid n (issues s)"
      and us': "map user_id (users s') = map user_id (users s)"
      and rows: "find (\<lambda>v. voter_id v = u \<and> upvote_issue_id v = iid) (upvotes s) = None \<and>
               upvotes s' = upvotes s @ [\<lparr>voter_id = u, upvote_issue_id = iid\<rparr>] \<or>
             (\<exists>ex. find (\<lambda>v. voter_id v = u \<and> upvote_issue_id v = iid) (upvotes s) = Some ex \<and>
               upvotes s' = remove1 ex (upvotes s))"
      by blast
    from i have iid: "iid \<in> set (map issue_id (issues s))"
      by (auto dest: get_issue_member)
    from assms(1) is' us' have fields: "reporters_exist s'" "embeddings_unset s'"
      "distinct (map issue_id (issues s'))"
      by (simp_all add: store_inv_def reporters_exist_iff embeddings_unset_iff)
    from assms(1) have d: "distinct (upvotes s)" and ref: "upvotes_refer s"
      by (simp_all add: store_inv_def one_vote_each_def)
    from ref have ref': "upvote_issue_id ` set (upvotes s) \<subseteq> set (map issue_id (issues s))"
      by (simp add: upvotes_refer_iff)
    have ids': "set (map issue_id (issues s')) = set (map issue_id (issues s))"
      by (simp add: is')
    from rows have "one_vote_each s' \<and> upvotes_refer s'"
    proof
      assume v: "find (\<lambda>v. voter_id v = u \<and> upvote_issue_id v = iid) (upvotes s) = None \<and>
               upvotes s' = upvotes s @ [\<lparr>voter_id = u, upvote_issue_id = iid\<rparr>]"
      then have new: "\<lparr>voter_id = u, upvote_issue_id = iid\<rparr> \<notin> set (upvotes s)"
        by (simp add: find_None_notin)
      from v have rows': "upvotes s' = upvotes s @ [\<lparr>voter_id = u, upvote_issue_id = iid\<rparr>]"
        by simp
      have "distinct (upvotes s')"
        using d new by (simp add: rows')
      moreover have "upvote_issue_id ` set (upvotes s') \<subseteq> set (map issue_id (issues s'))"
        unfolding ids' using ref' iid by (simp add: rows')
      ultimately show ?thesis
        by (simp add: one_vote_each_def upvotes_refer_iff)
    next
      assume "\<exists>ex. find (\<lambda>v. voter_id v = u \<and> upvote_issue_id v = iid) (upvotes s) = Some ex \<and>
               upvotes s' = remove1 ex (upvotes s)"
      then obtain ex where rows': "upvotes s' = remove1 ex (upvotes s)" by blast
      have "distinct (upvotes s')"
        using d by (simp add: rows')
      moreover have "set (upvotes s') \<subseteq> set (upvotes s)"
        unfolding rows' by (rule set_remove1_subset)
      then have "upvote_issue_id ` set (upvotes s') \<subseteq> set (map issue_id (issues s'))"
        unfolding ids' using ref' by blast
      ultimately show ?thesis
        by (simp add: one_vote_each_def upvotes_refer_iff)
    qed
    with fields vc' show ?thesis by (simp add: store_inv_def)
  qed
qed

lemma report_issue_shape:
  assumes "report_issue s cu fv lat lng cat descr = (s', r)"
  shows "s' = s \<or>
         (\<exists>la lo n. get_user s cu \<noteq> None \<and>
            issues s' = issues s @
              [\<lparr>issue_id = fresh_issue_id s, category = cat, description = descr,
                latitude = la, longitude = lo, status = ''Reported'',
                upvote_count = Some 0, embedding = None, reporter_id = cu\<rparr>] \<and>
            upvotes s' = upvotes s \<and>
            users s' = set_reputation_points cu n (users s))"
  using assms
  by (auto simp: report_issue_def Let_def split: option.splits if_splits prod.splits)

lemma fresh_issue_id_new: "fresh_issue_id s \<notin> set (map issue_id (issues s))"
proof
  assume "fresh_issue_id s \<in> set (map issue_id (issues s))"
  then obtain i where "i \<in> set (issues s)" "issue_id i = fresh_issue_id s" by auto
  with fresh_issue_id_above [of i s] show False by simp
qed

lemma report_issue_store_inv:
  assumes "store_inv s" and "report_issue s cu fv lat lng cat descr = (s', r)"
  shows "store_inv s'"
proof -
  from report_issue_shape [OF assms(2)] show ?thesis
  proof
    assume "s' = s"
    with assms(1) show ?thesis by simp
  next
    assume "\<exists>la lo n. get_user s cu \<noteq> None \<and>
            issues s' = issues s @
              [\<lparr>issue_id = fresh_issue_id s, category = cat, description = descr,
                latitude = la, longitude = lo, status = ''Reported'',
                upvote_count = Some 0, embedding = None, reporter_id = cu\<rparr>] \<and>
            upvotes s' = upvotes s \<and>
            users s' = set_reputation_points cu n (users s)"
    then obtain la lo n where cu: "get_user s cu \<noteq> None"
      and is': "issues s' = issues s @
              [\<lparr>issue_id = fresh_issue_id s, category = cat, description = descr,
                latitude = la, longitude = lo, status = ''Reported'',
                upvote_count = Some 0, embedding = None, reporter_id = cu\<rparr>]"
      and rows': "upvotes s' = upvotes s"
      and us': "users s' = set_reputation_points cu n (users s)"
      by blast
    from assms(1) have inv: "one_vote_each s" "reporters_exist s" "vote_consistent s"
      "embeddings_unset s" "upvotes_refer s" "distinct (map issue_id (issues s))"
      by (simp_all add: store_inv_def)
    have one: "one_vote_each s'"
      using inv(1) by (simp add: one_vote_each_def rows')
    from cu have "cu \<in> user_id ` set (users s)" by (simp only: get_user_iff)
    then have rep: "reporters_exist s'"
      using inv(2) by (simp add: reporters_exist_iff is' us')
    have emb: "embeddings_unset s'"
      using inv(4) by (simp add: embeddings_unset_iff is')
    have ref: "upvotes_refer s'"
      using inv(5) by (auto simp: upvotes_refer_iff is' rows')
    have dist: "distinct (map issue_id (issues s'))"
      using inv(6) fresh_issue_id_new [of s] by (simp add: is')
    have "filter (\<lambda>v. upvote_issue_id v = fresh_issue_id s) (upvotes s) = []"
      using inv(5) fresh_issue_id_new [of s]
      unfolding filter_empty_conv upvotes_refer_iff by (metis image_subset_iff)
    then have "upvote_records s' (fresh_issue_id s) = 0"
      by (simp add: upvote_records_def rows')
    moreover have "\<And>k. upvote_records s' k = upvote_records s k"
      by (simp add: upvote_records_def rows')
    ultimately have vc: "vote_consistent s'"
      using inv(3) by (simp add: vote_consistent_def is')
    from one rep vc emb ref dist show ?thesis by (simp add: store_inv_def)
  qed
qed

lemma initial_store_inv: "issues s = [] \<Longrightarrow> upvotes s = [] \<Longrightarrow> store_inv s"
  by (simp add: store_inv_def one_vote_each_def reporters_exist_def vote_consistent_def
      embeddings_unset_def upvotes_refer_def)

lemma reachable_store_inv: "reachable s \<Longrightarrow> store_inv s"
proof (induction rule: reachable.induct)
  case (initial s)
  then show ?case by (rule initial_store_inv)
next
  case (reported s cu fv lat lng cat descr s' r)
  then show ?case by (blast intro: report_issue_store_inv)
next
  case (upvoted s cu iid s' r)
  obtain code body where "r = (code, body)" by (cases r)
  with upvoted show ?case by (blast intro: upvote_store_inv)
next
  case (status_updated s cu iid st s' rd)
  then show ?case by (blast intro: update_status_store_inv)
next
  case (status_updated_v1 s cu iid st s' rd)
  then show ?case by (blast intro: update_status_v1_store_inv)
qed

text \<open>So the toggle round trip and the count invariant hold in every such store.\<close>

lemma reachable_counts_set: "reachable s \<Longrightarrow> i \<in> set (issues s) \<Longrightarrow> upvote_count i \<noteq> None"
proof (induction arbitrary: i rule: reachable.induct)
  case (initial s)
  then show ?case by simp
next
  case (reported s cu fv lat lng cat descr s' r)
  from report_issue_shape [OF reported(2)] reported(3,4) show ?case by auto
next
  case (upvoted s cu k s' r)
  obtain code body where "r = (code, body)" by (cases r)
  with upvoted(2) have "upvote s cu k = Inr (s', code, body)" by simp
  from upvote_shape [OF this] show ?case
  proof
    assume "s' = s"
    with upvoted(3,4) show ?thesis by simp
  next
    assume "\<exists>i n. get_issue s k = Some i \<and>
            issues s' = set_upvote_count k n (issues s) \<and>
            map user_id (users s') = map user_id (users s) \<and>
            (find (\<lambda>v. voter_id v = cu \<and> upvote_issue_id v = k) (upvotes s) = None \<and>
               upvotes s' = upvotes s @ [\<lparr>voter_id = cu, upvote_issue_id = k\<rparr>] \<or>
             (\<exists>ex. find (\<lambda>v. voter_id v = cu \<and> upvote_issue_id v = k) (upvotes s) = Some ex \<and>
               upvotes s' = remove1 ex (upvotes s)))"
    then obtain n where "issues s' = set_upvote_count k n (issues s)" by blast
    with upvoted(4) obtain j where "j \<in> set (issues s)"
      "if issue_id j = k then upvote_count i = Some n else i = j"
      by (auto dest: set_upvote_count_member)
    with upvoted(3) [of j] show ?thesis by (auto split: if_splits)
  qed
next
  case (status_updated s cu k st s' rd)
  from update_status_shape [OF status_updated(2)] show ?case
  proof
    assume "s' = s"
    with status_updated(3,4) show ?thesis by simp
  next
    assume "upvotes s' = upvotes s \<and>
          (\<exists>st'. issues s' = set_status k st' (issues s)) \<and>
          map user_id (users s') = map user_id (users s)"
    then obtain st' where "issues s' = set_status k st' (issues s)" by blast
    with status_updated(4) obtain j where "j \<in> set (issues s)" "upvote_count i = upvote_count j"
      by (auto simp: set_status_def split: if_splits)
    with status_updated(3) [of j] show ?thesis by simp
  qed
next
  case (status_updated_v1 s cu k st s' rd)
  from update_status_v1_shape [OF status_updated_v1(2)] show ?case
  proof
    assume "s' = s"
    with status_updated_v1(3,4) show ?thesis by simp
  next
    assume "upvotes s' = upvotes s \<and>
          (\<exists>st'. issues s' = set_status k st' (issues s)) \<and>
          map user_id (users s') = map user_id (users s)"
    then obtain st' where "issues s' = set_status k st' (issues s)" by blast
    with status_updated_v1(4) obtain j where "j \<in> set (issues s)" "upvote_count i = upvote_count j"
      by (auto simp: set_status_def split: if_splits)
    with status_updated_v1(3) [of j] show ?thesis by simp
  qed
qed

text \<open>
  The reporter of a stored issue has reported it, which set the reporter's reputation: the
  guard of Version 1's \<^verbatim>\<open>update_status\<close> holds in every such store.
\<close>

lemma set_reputation_points_member:
  "u' \<in> set (set_reputation_points k n rows) \<Longrightarrow>
   \<exists>u\<in>set rows. user_id u' = user_id u \<and>
     (if user_id u = k then reputation_points u' = Some n else u' = u)"
  by (auto simp: set_reputation_points_def)

lemma set_reputation_points_row:
  assumes "u' \<in> set (set_reputation_points k n rows)"
  shows "\<exists>u\<in>set rows. user_id u' = user_id u \<and> (reputation_points u' \<noteq> None \<or> u' = u)"
proof -
  from set_reputation_points_member [OF assms] obtain u where u: "u \<in> set rows"
    "user_id u' = user_id u" "if user_id u = k then reputation_points u' = Some n else u' = u"
    by blast
  show ?thesis
  proof (cases "user_id u = k")
    case True
    with u show ?thesis by (intro bexI [of _ u]) simp_all
  next
    case False
    with u show ?thesis by (intro bexI [of _ u]) simp_all
  qed
qed

lemma upvote_users:
  assumes "upvote s cu iid = Inr (s', code, body)" and "u' \<in> set (users s')"
  shows "\<exists>u\<in>set (users s). user_id u' = user_id u \<and> (reputation_points u' \<noteq> None \<or> u' = u)"
proof (cases "s' = s")
  case True
  with assms(2) show ?thesis by auto
next
  case False
  with assms(1) obtain k n where "users s' = set_reputation_points k n (users s)"
    by (auto simp: upvote_def Let_def split: option.splits)
  with assms(2) have "u' \<in> set (set_reputation_points k n (users s))" by simp
  then show ?thesis by (rule set_reputation_points_row)
qed

lemma update_status_v1_users:
  assumes "update_status_v1 s cu iid st = Inr (s', rd)" and "u' \<in> set (users s')"
  shows "\<exists>u\<in>set (users s). user_id u' = user_id u \<and> (reputation_points u' \<noteq> None \<or> u' = u)"
proof (cases "users s' = users s")
  case True
  with assms(2) show ?thesis by auto
next
  case False
  with assms(1) obtain k n where "users s' = set_reputation_points k n (users s)"
    by (auto simp: update_status_v1_def split: option.splits if_splits)
  with assms(2) have "u' \<in> set (set_reputation_points k n (users s))" by simp
  then show ?thesis by (rule set_reputation_points_row)
qed

lemma reachable_reporter_reputation_set:
  "reachable s \<Longrightarrow> i \<in> set (issues s) \<Longrightarrow> u \<in> set (users s) \<Longrightarrow>
   user_id u = reporter_id i \<Longrightarrow> reputation_points u \<noteq> None"
proof (induction arbitrary: i u rule: reachable.induct)
  case (initial s)
  then show ?case by simp
next
  case (reported s cu fv lat lng cat descr s' r)
  from report_issue_shape [OF reported(2)] show ?case
  proof
    assume "s' = s"
    with reported(3-6) show ?thesis by simp
  next
    assume "\<exists>la lo n. get_user s cu \<noteq> None \<and>
            issues s' = issues s @
              [\<lparr>issue_id = fresh_issue_id s, category = cat, description = descr,
                latitude = la, longitude = lo, status = ''Reported'',
                upvote_count = Some 0, embedding = None, reporter_id = cu\<rparr>] \<and>
            upvotes s' = upvotes s \<and>
            users s' = set_reputation_points cu n (users s)"
    then obtain la lo n where is': "issues s' = issues s @
              [\<lparr>issue_id = fresh_issue_id s, category = cat, description = descr,
                latitude = la, longitude = lo, status = ''Reported'',
                upvote_count = Some 0, embedding = None, reporter_id = cu\<rparr>]"
      and us': "users s' = set_reputation_points cu n (users s)"
      by blast
    from reported(5) us' obtain u0 where u0: "u0 \<in> set (users s)" "user_id u = user_id u0"
      "if user_id u0 = cu then reputation_points u = Some n else u = u0"
      by (auto dest!: set_reputation_points_member)
    show ?thesis
    proof (cases "user_id u0 = cu")
      case True
      with u0(3) show ?thesis by simp
    next
      case False
      with u0(3) have eq: "u = u0" by simp
      from reported(4,6) is' False u0(2) have "i \<in> set (issues s)" by auto
      from reported(3) [OF this u0(1)] reported(6) eq show ?thesis by simp
    qed
  qed
next
  case (upvoted s cu k s' r)
  obtain code body where "r = (code, body)" by (cases r)
  with upvoted(2) have up: "upvote s cu k = Inr (s', code, body)" by simp
  from upvote_users [OF up upvoted(5)]
  obtain u0 where u0: "u0 \<in> set (users s)" "user_id u = user_id u0"
    "reputation_points u \<noteq> None \<or> u = u0" by blast
  from upvote_shape [OF up] upvoted(4) obtain j where j: "j \<in> set (issues s)"
    "reporter_id j = reporter_id i"
    by (auto simp: set_upvote_count_def split: if_splits)
  from upvoted(3) [OF j(1) u0(1)] u0(2,3) j(2) upvoted(6) show ?case by auto
next
  case (status_updated s cu k st s' rd)
  from update_status_never_stores [OF status_updated(2)] status_updated(3-6)
  show ?case by simp
next
  case (status_updated_v1 s cu k st s' rd)
  from update_status_v1_users [OF status_updated_v1(2) status_updated_v1(5)]
  obtain u0 where u0: "u0 \<in> set (users s)" "user_id u = user_id u0"
    "reputation_points u \<noteq> None \<or> u = u0" by blast
  from update_status_v1_shape [OF status_updated_v1(2)] status_updated_v1(4)
  obtain j where j: "j \<in> set (issues s)" "reporter_id j = reporter_id i"
    by (auto simp: set_status_def split: if_splits)
  from status_updated_v1(3) [OF j(1) u0(1)] u0(2,3) j(2) status_updated_v1(6)
  show ?case by auto
qed

lemma reachable_upvote_twice:
  assumes "reachable s" and "get_issue s iid = Some i"
  shows "\<exists>s1 c1 b1 s2 c2 b2 i2 r r2.
           upvote s u iid = Inr (s1, c1, b1) \<and> upvote s1 u iid = Inr (s2, c2, b2) \<and>
           get_user s (reporter_id i) = Some r \<and>
           get_issue s2 iid = Some i2 \<and> get_user s2 (reporter_id i) = Some r2 \<and>
           upvote_count i2 = upvote_count i \<and>
           reputation_points r2 = Some (or0 (reputation_points r))"
proof -
  from assms(1) have inv: "store_inv s" by (rule reachable_store_inv)
  from assms(2) have m: "i \<in> set (issues s)" by (auto dest: get_issue_member)
  from inv m obtain r where r: "get_user s (reporter_id i) = Some r"
    by (auto simp: store_inv_def reporters_exist_def list_all_iff)
  from inv have one: "one_vote_each s" by (simp add: store_inv_def)
  from reachable_counts_set [OF assms(1) m] obtain n where n: "upvote_count i = Some n" by auto
  from upvote_twice_step [OF assms(2) r one, of u]
  obtain s1 c1 b1 s2 c2 b2 i2 r2 where
    "upvote s u iid = Inr (s1, c1, b1)" "upvote s1 u iid = Inr (s2, c2, b2)"
    "get_issue s2 iid = Some i2" "get_user s2 (reporter_id i) = Some r2"
    "upvote_count i2 = Some (or0 (upvote_count i))"
    "reputation_points r2 = Some (or0 (reputation_points r))"
    by blast
  with r n show ?thesis by (intro exI [of _ s1] exI [of _ s2] exI) simp
qed

lemma reachable_vote_consistent: "reachable s \<Longrightarrow> vote_consistent s"
  by (drule reachable_store_inv) (simp add: store_inv_def)

lemma reachable_distinct_ids: "reachable s \<Longrightarrow> distinct (map issue_id (issues s))"
  by (drule reachable_store_inv) (simp add: store_inv_def)

section \<open>Issues without an embedding\<close>

lemma similarities_from_skips_null:
  "similarities_from qv (filter (\<lambda>i. embedding i \<noteq> None) cands) acc =
   similarities_from qv cands acc"
  by (induction cands arbitrary: acc) (auto split: option.splits sum.splits)

lemma similarities_all_null:
  "list_all (\<lambda>i. embedding i = None) cands \<Longrightarrow> similarities_from qv cands acc = Inr acc"
  by (induction cands arbitrary: acc) auto

lemma rank_issues_all_null:
  "list_all (\<lambda>i. embedding i = None) cands \<Longrightarrow> rank_issues qv cands = Inr []"
  by (simp add: rank_issues_def similarities_def similarities_all_null sorted_ids_def)

lemma search_candidates_null:
  assumes "embeddings_unset s" and "search_candidates env s loc = Some cands"
  shows "list_all (\<lambda>i. embedding i = None) cands"
  using assms
  by (auto simp: search_candidates_def embeddings_unset_def list_all_iff
      split: if_splits option.splits)

lemma search_unset_empty:
  assumes "embeddings_unset s" and "strip q \<noteq> []"
  shows "\<exists>fl. search env s q loc = Inr (SearchResults [] fl)"
proof (cases "search_candidates env s (strip loc)")
  case None
  with assms(2) show ?thesis by (simp add: search_def Let_def)
next
  case (Some cands)
  from search_candidates_null [OF assms(1) Some]
  have "\<And>qe. rank_issues qe cands = Inr []" by (rule rank_issues_all_null)
  with Some assms(2) show ?thesis
    by (auto simp: search_def Let_def split: option.splits)
qed

lemma search_v1_unset_empty:
  assumes "embeddings_unset s" and "q \<noteq> []"
  shows "\<exists>fl. search_v1 env s q loc = Inr (SearchResults [] fl)"
proof (cases "search_candidates env s loc")
  case None
  with assms(2) show ?thesis by (simp add: search_v1_def)
next
  case (Some cands)
  from search_candidates_null [OF assms(1) Some]
  have "\<And>qe. rank_issues qe cands = Inr []" by (rule rank_issues_all_null)
  with Some assms(2) show ?thesis
    by (auto simp: search_v1_def rank_issues_v1_eq split: option.splits)
qed

lemma null_not_in_similarities:
  assumes "distinct (map issue_id cands)" and "i \<in> set cands" and "embedding i = None"
    and "similarities qv cands = Inr sims"
  shows "issue_id i \<notin> fst ` set sims"
proof
  assume "issue_id i \<in> fst ` set sims"
  then obtain sc where "(issue_id i, sc) \<in> set sims" by auto
  then obtain sc' where "map_of sims (issue_id i) = Some sc'"
    by (auto dest: weak_map_of_SomeI)
  with assms(4) obtain j where j: "j \<in> set cands" "issue_id j = issue_id i" "embedding j \<noteq> None"
    unfolding similarities_def by (auto dest!: similarities_from_origin)
  with assms(1,2) have "j = i" by (metis distinct_map inj_on_def)
  with j(3) assms(3) show False by simp
qed

lemma null_not_ranked:
  assumes "distinct (map issue_id cands)" and "embedding i = None"
    and "rank_issues qv cands = Inr ranked"
  shows "i \<notin> set ranked"
proof
  assume "i \<in> set ranked"
  from assms(3) obtain sims where s: "similarities qv cands = Inr sims"
    and r: "ranked = List.map_filter (issue_map cands) (sorted_ids (relevant_ids sims))"
    by (auto simp: rank_issues_def split: sum.splits)
  from \<open>i \<in> set ranked\<close> r obtain sid where "sid \<in> set (sorted_ids (relevant_ids sims))"
    and m: "issue_map cands sid = Some i"
    by (auto simp: set_map_filter)
  then obtain x where "(sid, x) \<in> set (relevant_ids sims)"
    by (auto simp: set_sorted_ids)
  from relevant_score [OF s assms(1) this m] assms(2) show False
    by (simp add: similarity_to_def)
qed

lemma store_reported_reachable: "reachable store_reported"
proof -
  have "reachable users_only"
    by (rule reachable.initial) (simp_all add: users_only_def)
  moreover have "report_issue users_only 1 True (Some 10) (Some 20) ''Pothole'' ''Deep pothole'' =
      (store_reported, snd (report_issue users_only 1 True (Some 10) (Some 20) ''Pothole''
         ''Deep pothole''))"
    by (simp add: store_reported_def)
  ultimately show ?thesis by (rule reachable.reported)
qed

lemma store_reported_issues: "length (issues store_reported) = 1"
  by (simp add: store_reported_def report_issue_def users_only_def get_user_def reporter_1_def)

text \<open>
  C8. A candidate whose embedding is NULL takes no part in the ranking: the
  \<^verbatim>\<open>similarities\<close> dict, and any exception of the block, is the same with and without
  such candidates; candidates that all lack an embedding rank to the empty list without
  an error; among rows with distinct primary keys a candidate without an embedding is
  neither a key of the dict nor in the ranked list. \<^verbatim>\<open>generate_and_set_embedding\<close>
  leaves the embedding as it is and the rows \<^verbatim>\<open>report_issue\<close> adds have none, so in
  every store built by the routes a search with a non-empty text query returns an empty
  result list, in both versions.
\<close>

theorem null_embeddings_are_skipped:
  "similarities qv (filter (\<lambda>i. embedding i \<noteq> None) cands) = similarities qv cands \<and>
   rank_issues qv (filter (\<lambda>i. embedding i = None) cands) = Inr [] \<and>
   (distinct (map issue_id cands) \<and> i \<in> set cands \<and> embedding i = None \<longrightarrow>
      (\<forall>sims. similarities qv cands = Inr sims \<longrightarrow> issue_id i \<notin> fst ` set sims) \<and>
      (\<forall>ranked. rank_issues qv cands = Inr ranked \<longrightarrow> i \<notin> set ranked)) \<and>
   embedding (generate_and_set_embedding j) = embedding j \<and>
   (\<forall>s' r. report_issue s cu fv lat lng cat descr = (s', r) \<longrightarrow>
      list_all (\<lambda>n. embedding n = None) (filter (\<lambda>n. n \<notin> set (issues s)) (issues s'))) \<and>
   (reachable s \<and> strip q \<noteq> [] \<longrightarrow>
      (\<exists>fl. search env s q loc = Inr (SearchResults [] fl))) \<and>
   (reachable s \<and> q \<noteq> [] \<longrightarrow>
      (\<exists>fl. search_v1 env s q loc = Inr (SearchResults [] fl)))"
proof -
  have a: "similarities qv (filter (\<lambda>i. embedding i \<noteq> None) cands) = similarities qv cands"
    unfolding similarities_def by (rule similarities_from_skips_null)
  have b: "rank_issues qv (filter (\<lambda>i. embedding i = None) cands) = Inr []"
    by (rule rank_issues_all_null) (simp add: list_all_iff)
  have c: "distinct (map issue_id cands) \<and> i \<in> set cands \<and> embedding i = None \<longrightarrow>
      (\<forall>sims. similarities qv cands = Inr sims \<longrightarrow> issue_id i \<notin> fst ` set sims) \<and>
      (\<forall>ranked. rank_issues qv cands = Inr ranked \<longrightarrow> i \<notin> set ranked)"
    using null_not_in_similarities null_not_ranked by blast
  have d: "embedding (generate_and_set_embedding j) = embedding j"
    by (simp add: generate_and_set_embedding_def)
  have e: "\<forall>s' r. report_issue s cu fv lat lng cat descr = (s', r) \<longrightarrow>
      list_all (\<lambda>n. embedding n = None) (filter (\<lambda>n. n \<notin> set (issues s)) (issues s'))"
    by (auto simp: list_all_iff dest!: report_issue_shape)
  have f: "reachable s \<and> strip q \<noteq> [] \<longrightarrow>
      (\<exists>fl. search env s q loc = Inr (SearchResults [] fl))"
    using search_unset_empty reachable_store_inv by (simp add: store_inv_def)
  have g: "reachable s \<and> q \<noteq> [] \<longrightarrow>
      (\<exists>fl. search_v1 env s q loc = Inr (SearchResults [] fl))"
    using search_v1_unset_empty reachable_store_inv by (simp add: store_inv_def)
  from a b c d e f g show ?thesis by simp
qed

theorem null_embeddings_are_skipped_witness:
  "reachable store_reported \<and> length (issues store_reported) = 1 \<and>
   list_all (\<lambda>n. embedding n = None) (issues store_reported) \<and>
   (\<exists>fl. search example_services store_reported ''pothole'' [] = Inr (SearchResults [] fl)) \<and>
   (\<exists>fl. search_v1 example_services store_reported ''pothole'' [] = Inr (SearchResults [] fl)) \<and>
   issue_d \<in> set [issue_c, issue_b, issue_d, issue_z, issue_a] \<and>
   rank_issues [1, 0] [issue_c, issue_b, issue_d, issue_z, issue_a] = Inr [issue_a, issue_b] \<and>
   issue_d \<notin> set [issue_a, issue_b]"
proof -
  have q: "strip ''pothole'' \<noteq> []" "''pothole'' \<noteq> []"
    by (simp_all add: strip_def is_space_def)
  have d: "distinct (map issue_id [issue_c, issue_b, issue_d, issue_z, issue_a])"
    by (simp add: example_ids)
  have m: "issue_d \<in> set [issue_c, issue_b, issue_d, issue_z, issue_a]" by simp
  note t = null_embeddings_are_skipped
    [where s = store_reported and q = "''pothole''" and env = example_services and loc = "[]"
       and cands = "[issue_c, issue_b, issue_d, issue_z, issue_a]" and i = issue_d
       and qv = "[1, 0]"]
  from t store_reported_reachable q
  have s: "\<exists>fl. search example_services store_reported ''pothole'' [] = Inr (SearchResults [] fl)"
    "\<exists>fl. search_v1 example_services store_reported ''pothole'' [] = Inr (SearchResults [] fl)"
    by blast+
  from t d m example_embeddings(4) example_ranking
  have n: "issue_d \<notin> set [issue_a, issue_b]" by blast
  have "report_issue users_only 1 True (Some 10) (Some 20) ''Pothole'' ''Deep pothole'' =
      (store_reported, snd (report_issue users_only 1 True (Some 10) (Some 20) ''Pothole''
         ''Deep pothole''))"
    by (simp add: store_reported_def)
  with null_embeddings_are_skipped
    [where s = users_only and cu = 1 and fv = True and lat = "Some 10" and lng = "Some 20"
       and cat = "''Pothole''" and descr = "''Deep pothole''"]
  have "list_all (\<lambda>n. embedding n = None)
          (filter (\<lambda>n. n \<notin> set (issues users_only)) (issues store_reported))"
    by blast
  then have e: "list_all (\<lambda>n. embedding n = None) (issues store_reported)"
    by (simp add: users_only_def)
  from store_reported_reachable store_reported_issues e s m example_ranking n
  show ?thesis by blast
qed

section \<open>Status updates and reputation\<close>

text \<open>
  Version 2: for a moderator, a stored issue and a valid status the request raises at the
  upvoters query, before the commit (and by \<open>update_status_never_stores\<close> a request that
  completes has stored nothing).
\<close>

lemma update_status_raises:
  assumes "get_user s cu = Some m" and "is_moderator m"
    and "get_issue s iid = Some i" and "get_user s (reporter_id i) = Some r"
    and "st \<in> set valid_statuses"
  shows "update_status s cu iid (Some st) =
     Inl (InvalidRequestError
            ''User.upvotes does not support object population - eager loading cannot be applied.'')"
  using assms by (simp add: update_status_def select_upvoters_joinedload_def)

text \<open>Version 1: the request succeeds and the reporter has 20 points more.\<close>

lemma update_status_v1_resolved:
  assumes "get_user s cu = Some m" and "is_moderator m"
    and "get_issue s iid = Some i" and "get_user s (reporter_id i) = Some r"
    and "reputation_points r = Some n"
  shows "update_status_v1 s cu iid (Some ''Resolved'') =
    Inr (s\<lparr>issues := set_status iid ''Resolved'' (issues s),
           users := set_reputation_points (reporter_id i) (n + 20) (users s),
           notifications :=
             notifications s @ status_notifications i (select_upvoters s i) ''Resolved''\<rparr>,
         Redirect ''main.view_issue''
           [''Issue status has been updated and followers notified.''])"
  using assms by (simp add: update_status_v1_def valid_statuses_def)

lemma update_status_v1_grants_twenty:
  assumes "get_user s cu = Some m" and "is_moderator m"
    and "get_issue s iid = Some i" and "get_user s (reporter_id i) = Some r"
    and "reputation_points r = Some n"
  shows "\<exists>s' rd r'. update_status_v1 s cu iid (Some ''Resolved'') = Inr (s', rd) \<and>
           get_user s' (reporter_id i) = Some r' \<and> reputation_points r' = Some (n + 20)"
proof (intro exI conjI)
  let ?s' = "s\<lparr>issues := set_status iid ''Resolved'' (issues s),
           users := set_reputation_points (reporter_id i) (n + 20) (users s),
           notifications :=
             notifications s @ status_notifications i (select_upvoters s i) ''Resolved''\<rparr>"
  show "update_status_v1 s cu iid (Some ''Resolved'') =
        Inr (?s', Redirect ''main.view_issue''
               [''Issue status has been updated and followers notified.''])"
    by (rule update_status_v1_resolved [OF assms])
  show "get_user ?s' (reporter_id i) = Some (r\<lparr>reputation_points := Some (n + 20)\<rparr>)"
    using assms(4) by (simp add: get_user_def find_set_reputation_points)
  show "reputation_points (r\<lparr>reputation_points := Some (n + 20)\<rparr>) = Some (n + 20)"
    by simp
qed

text \<open>Version 1 leaves a NULL reputation as it is (its column is NOT NULL).\<close>

lemma update_status_v1_null:
  assumes "get_user s cu = Some m" and "is_moderator m"
    and "get_issue s iid = Some i" and "get_user s (reporter_id i) = Some r"
    and "reputation_points r = None"
  shows "\<exists>s' rd. update_status_v1 s cu iid (Some ''Resolved'') = Inr (s', rd) \<and> users s' = users s"
  using assms by (simp add: update_status_v1_def valid_statuses_def)

text \<open>
  C5. Entering \<^verbatim>\<open>Resolved\<close> is meant to grant the reporter 20 points, and Version 1
  does: in the example store the moderator resolves issue 1, whose reporter has 0 points,
  and the reporter has 20 afterwards. In Version 2 the same request raises
  \<^verbatim>\<open>InvalidRequestError\<close> at the upvoters query, after the assignment of the 20
  points and before the commit: nothing is stored and the reporter keeps 0 points.
\<close>

theorem resolved_not_stored_in_version_2:
  "get_user store_0 2 = Some moderator_2 \<and> is_moderator moderator_2 \<and>
   get_issue store_0 1 = Some issue_a \<and>
   get_user store_0 (reporter_id issue_a) = Some reporter_1 \<and>
   reputation_points reporter_1 = Some 0 \<and>
   update_status store_0 2 1 (Some ''Resolved'') =
     Inl (InvalidRequestError
            ''User.upvotes does not support object population - eager loading cannot be applied.'') \<and>
   (\<exists>s' rd r'. update_status_v1 store_0 2 1 (Some ''Resolved'') = Inr (s', rd) \<and>
      get_user s' 1 = Some r' \<and> reputation_points r' = Some 20)"
proof -
  have m: "get_user store_0 2 = Some moderator_2" "is_moderator moderator_2"
    by (simp_all add: example_store_lookups moderator_2_def)
  have a: "get_issue store_0 1 = Some issue_a"
    "get_user store_0 (reporter_id issue_a) = Some reporter_1"
    "reputation_points reporter_1 = Some 0" "reporter_id issue_a = 1"
    by (simp_all add: example_store_lookups reporter_1_def)
  have v: "''Resolved'' \<in> set valid_statuses" by (simp add: valid_statuses_def)
  note v2 = update_status_raises [OF m a(1,2) v]
  from update_status_v1_grants_twenty [OF m a(1,2,3)]
  have v1: "\<exists>s' rd r'. update_status_v1 store_0 2 1 (Some ''Resolved'') = Inr (s', rd) \<and>
      get_user s' 1 = Some r' \<and> reputation_points r' = Some 20"
    by (simp add: a(4))
  from m a(1,2,3) v2 v1 show ?thesis by simp
qed

section \<open>The duplicate detector\<close>

lemma find_duplicate_issue_with_returns:
  "\<exists>r. fst (find_duplicate_issue_with p ai d existing) = Inr r"
  by (cases "duplicate_try p ai d existing"; cases "fst (duplicate_try p ai d existing)")
     (auto simp: find_duplicate_issue_with_def)

lemma find_duplicate_issue_with_soft:
  assumes "existing \<noteq> []" and "fst (duplicate_try p ai d existing) = Inl e"
  shows "fst (find_duplicate_issue_with p ai d existing) = Inr not_duplicate \<and>
         snd (find_duplicate_issue_with p ai d existing) =
           snd (duplicate_try p ai d existing) @
             [ErrorLogged (''Gemini API error (duplicate check): '' @ exc_message e)]"
  using assms
  by (cases "duplicate_try p ai d existing") (auto simp: find_duplicate_issue_with_def)

lemma duplicate_try_classifier_raises:
  assumes "configure ai = Inr ()" and "json_dumps ai existing = Inr str"
    and "generate_content ai (p d str) = Inl e"
  shows "fst (duplicate_try p ai d existing) = Inl e"
  using assms by (simp add: duplicate_try_def)

lemma duplicate_try_unparseable:
  assumes "configure ai = Inr ()" and "json_dumps ai existing = Inr str"
    and "generate_content ai (p d str) = Inr t" and "json_loads ai (clean_response t) = Inl e"
  shows "fst (duplicate_try p ai d existing) = Inl e"
  using assms by (simp add: duplicate_try_def)

lemma duplicate_try_setup_raises:
  assumes "configure ai = Inl e \<or> (configure ai = Inr () \<and> json_dumps ai existing = Inl e)"
  shows "fst (duplicate_try p ai d existing) = Inl e"
  using assms by (auto simp: duplicate_try_def)

text \<open>
  C6. For every description and every non-empty candidate list: when the classifier call
  raises, or it answers and \<^verbatim>\<open>json.loads\<close> raises on the cleaned answer,
  \<^verbatim>\<open>find_duplicate_issue\<close> returns \<^verbatim>\<open>{'is_duplicate': False}\<close>; so it does for
  any exception raised in its \<^verbatim>\<open>try\<close> block. On every input it returns a value and
  raises nothing to its caller. Both versions.
\<close>

theorem find_duplicate_issue_fails_soft:
  "(existing \<noteq> [] \<and> configure ai = Inr () \<and> json_dumps ai existing = Inr str \<and>
      (generate_content ai (duplicate_prompt d str) = Inl e \<or>
       (\<exists>t. generate_content ai (duplicate_prompt d str) = Inr t \<and>
            json_loads ai (clean_response t) = Inl e)) \<longrightarrow>
      fst (find_duplicate_issue ai d existing) = Inr not_duplicate) \<and>
   (existing \<noteq> [] \<and> configure ai = Inr () \<and> json_dumps ai existing = Inr str \<and>
      (generate_content ai (duplicate_prompt_v1 d str) = Inl e \<or>
       (\<exists>t. generate_content ai (duplicate_prompt_v1 d str) = Inr t \<and>
            json_loads ai (clean_response t) = Inl e)) \<longrightarrow>
      fst (find_duplicate_issue_v1 ai d existing) = Inr not_duplicate) \<and>
   (existing \<noteq> [] \<and> fst (duplicate_try duplicate_prompt ai d existing) = Inl e \<longrightarrow>
      fst (find_duplicate_issue ai d existing) = Inr not_duplicate) \<and>
   (existing \<noteq> [] \<and> fst (duplicate_try duplicate_prompt_v1 ai d existing) = Inl e \<longrightarrow>
      fst (find_duplicate_issue_v1 ai d existing) = Inr not_duplicate) \<and>
   (\<exists>r. fst (find_duplicate_issue ai d existing) = Inr r) \<and>
   (\<exists>r. fst (find_duplicate_issue_v1 ai d existing) = Inr r) \<and>
   not_duplicate = JObject [(''is_duplicate'', JBool False)]"
proof -
  have soft: "fst (find_duplicate_issue_with p ai d existing) = Inr not_duplicate"
    if "existing \<noteq> []" and "fst (duplicate_try p ai d existing) = Inl e" for p
    using that by (simp add: find_duplicate_issue_with_soft)
  have raises: "fst (duplicate_try p ai d existing) = Inl e"
    if "configure ai = Inr ()" and "json_dumps ai existing = Inr str"
      and "generate_content ai (p d str) = Inl e \<or>
       (\<exists>t. generate_content ai (p d str) = Inr t \<and> json_loads ai (clean_response t) = Inl e)"
    for p
    using that by (auto intro: duplicate_try_classifier_raises duplicate_try_unparseable)
  show ?thesis
    unfolding find_duplicate_issue_def find_duplicate_issue_v1_def
    using soft raises find_duplicate_issue_with_returns
    by (auto simp: not_duplicate_def)
qed

theorem find_duplicate_issue_fails_soft_witness:
  "fst (find_duplicate_issue failing_ai ''Deep pothole here'' [nearby_a]) = Inr not_duplicate \<and>
   fst (find_duplicate_issue_v1 failing_ai ''Deep pothole here'' [nearby_a]) = Inr not_duplicate \<and>
   fst (find_duplicate_issue chatty_ai ''Deep pothole here'' [nearby_a]) = Inr not_duplicate \<and>
   fst (find_duplicate_issue_v1 chatty_ai ''Deep pothole here'' [nearby_a]) = Inr not_duplicate \<and>
   fst (duplicate_try duplicate_prompt chatty_ai ''Deep pothole here'' [nearby_a]) =
     Inl (ValueError ''Expecting value'') \<and>
   fst (duplicate_try duplicate_prompt_v1 failing_ai ''Deep pothole here'' [nearby_a]) =
     Inl (OtherException ''503 service unavailable'')"
proof -
  have a: "fst (find_duplicate_issue failing_ai ''Deep pothole here'' [nearby_a]) = Inr not_duplicate \<and>
      fst (find_duplicate_issue_v1 failing_ai ''Deep pothole here'' [nearby_a]) = Inr not_duplicate"
    using find_duplicate_issue_fails_soft
      [of "[nearby_a]" failing_ai "''[...]''" "''Deep pothole here''"
          "OtherException ''503 service unavailable''"]
    by (simp add: failing_ai_def)
  have b: "fst (find_duplicate_issue chatty_ai ''Deep pothole here'' [nearby_a]) = Inr not_duplicate \<and>
      fst (find_duplicate_issue_v1 chatty_ai ''Deep pothole here'' [nearby_a]) = Inr not_duplicate"
    using find_duplicate_issue_fails_soft
      [of "[nearby_a]" chatty_ai "''[...]''" "''Deep pothole here''" "ValueError ''Expecting value''"]
    by (simp add: chatty_ai_def)
  have c: "fst (duplicate_try duplicate_prompt chatty_ai ''Deep pothole here'' [nearby_a]) =
      Inl (ValueError ''Expecting value'')"
    "fst (duplicate_try duplicate_prompt_v1 failing_ai ''Deep pothole here'' [nearby_a]) =
      Inl (OtherException ''503 service unavailable'')"
    by (simp_all add: duplicate_try_def chatty_ai_def failing_ai_def)
  from a b c show ?thesis by simp
qed

text \<open>
  C7. With an empty list of nearby issues \<^verbatim>\<open>check_duplicates\<close> answers
  \<^verbatim>\<open>{'is_duplicate': False}\<close> with status 200 and the run has no event: the
  classifier is neither configured nor called. \<^verbatim>\<open>find_duplicate_issue\<close> on an empty
  list does the same.
\<close>

theorem empty_candidates_skip_classifier:
  "find_duplicate_issue ai d [] = (Inr not_duplicate, []) \<and>
   find_duplicate_issue_v1 ai d [] = (Inr not_duplicate, []) \<and>
   (nearby_issues s lat lng = [] \<longrightarrow>
      check_duplicates ai s (Some lat) (Some lng) d = (Inr (200, not_duplicate), [])) \<and>
   not_duplicate = JObject [(''is_duplicate'', JBool False)]"
  by (simp add: find_duplicate_issue_def find_duplicate_issue_v1_def
      find_duplicate_issue_with_def check_duplicates_def not_duplicate_def)

theorem empty_candidates_skip_classifier_witness:
  "nearby_issues store_0 50 50 = [] \<and>
   check_duplicates failing_ai store_0 (Some 50) (Some 50) ''Deep pothole here'' =
     (Inr (200, JObject [(''is_duplicate'', JBool False)]), [])"
proof -
  have n: "nearby_issues store_0 50 50 = []"
    by (simp add: nearby_issues_def store_0_def geo_where_def between_def duplicate_radius_def
        issue_a_def issue_b_def issue_c_def)
  with empty_candidates_skip_classifier [of failing_ai "''Deep pothole here''" store_0 50 50]
  show ?thesis by simp
qed

end
